theory Spec2Isabelle
  imports Main "HOL-Library.Word"
begin

section \<open>SimpleFS: the block device (disk.c) and the storage engine (fs.c)\<close>

subsection \<open>Constants and on-disk layout\<close>

text \<open>
  Modelled from the spec: the headers \<^verbatim>\<open>sfs/disk.h\<close> and \<^verbatim>\<open>sfs/fs.h\<close> are not part of
  the sources, so the constants and the layout of the \<^verbatim>\<open>Block\<close> union are taken from the
  specification: a block is a buffer of \<^verbatim>\<open>BLOCK_SIZE\<close> = 4096 bytes whose content is
  reinterpreted as a superblock record, an array of inode records, an array of block
  pointers or raw data; an inode has \<^verbatim>\<open>valid\<close>, \<^verbatim>\<open>size\<close>, D = 5 direct pointers and one
  indirect pointer; a block holds P = BLOCK_SIZE / pointer size pointers. Every field is
  an unsigned 32-bit integer (the code prints them with \<^verbatim>\<open>%u\<close>), stored in four
  consecutive bytes, least significant byte first, fields in declaration order without
  padding. An inode record therefore takes 32 bytes and a block holds 128 of them. The
  failure value of the device is -1. The specification fixes no value for the sentinel
  \<^verbatim>\<open>MAGIC_NUMBER\<close>; it is given the one of the SimpleFS format, and what is proved below
  needs only that it is a 32-bit value not below 20.
\<close>

definition BLOCK_SIZE :: nat where "BLOCK_SIZE = 4096"
definition INODES_PER_BLOCK :: nat where "INODES_PER_BLOCK = 128"
definition POINTERS_PER_INODE :: nat where "POINTERS_PER_INODE = 5"
definition POINTERS_PER_BLOCK :: nat where "POINTERS_PER_BLOCK = 1024"
definition MAGIC_NUMBER :: nat where "MAGIC_NUMBER = 0xf0f03410"
definition DISK_FAILURE :: int where "DISK_FAILURE = - 1"

type_synonym byte = "8 word"

text \<open>\<^verbatim>\<open>char data[BLOCK_SIZE]\<close>: the byte at every offset of the buffer.\<close>
type_synonym block = "nat \<Rightarrow> byte"

definition zero_block :: block where
  "zero_block = (\<lambda>_. 0)"

text \<open>A \<^verbatim>\<open>uint32_t\<close> field at byte offset \<open>off\<close> of a block.\<close>

definition get32 :: "block \<Rightarrow> nat \<Rightarrow> nat" where
  "get32 b off = unat (b off) + 256 * unat (b (off + 1))
     + 65536 * unat (b (off + 2)) + 16777216 * unat (b (off + 3))"

definition put32 :: "block \<Rightarrow> nat \<Rightarrow> nat \<Rightarrow> block" where
  "put32 b off v = b(off := of_nat v, off + 1 := of_nat (v div 256),
     off + 2 := of_nat (v div 65536), off + 3 := of_nat (v div 16777216))"

record SuperBlock =
  magic_number :: nat
  blocks :: nat
  inode_blocks :: nat
  inodes :: nat

text \<open>\<^verbatim>\<open>block.super\<close>\<close>
definition super :: "block \<Rightarrow> SuperBlock" where
  "super b = \<lparr>magic_number = get32 b 0, blocks = get32 b 4,
     inode_blocks = get32 b 8, inodes = get32 b 12\<rparr>"

definition INODE_SIZE :: nat where
  "INODE_SIZE = 4 * (POINTERS_PER_INODE + 3)"

text \<open>\<^verbatim>\<open>block.inodes[i].valid\<close>, \<^verbatim>\<open>.size\<close>, \<^verbatim>\<open>.direct[k]\<close>, \<^verbatim>\<open>.indirect\<close>\<close>
definition inode_valid :: "block \<Rightarrow> nat \<Rightarrow> nat" where
  "inode_valid b i = get32 b (INODE_SIZE * i)"
definition inode_size :: "block \<Rightarrow> nat \<Rightarrow> nat" where
  "inode_size b i = get32 b (INODE_SIZE * i + 4)"
definition inode_direct :: "block \<Rightarrow> nat \<Rightarrow> nat \<Rightarrow> nat" where
  "inode_direct b i k = get32 b (INODE_SIZE * i + 8 + 4 * k)"
definition inode_indirect :: "block \<Rightarrow> nat \<Rightarrow> nat" where
  "inode_indirect b i = get32 b (INODE_SIZE * i + 8 + 4 * POINTERS_PER_INODE)"

definition set_inode_valid :: "block \<Rightarrow> nat \<Rightarrow> nat \<Rightarrow> block" where
  "set_inode_valid b i v = put32 b (INODE_SIZE * i) v"
definition set_inode_size :: "block \<Rightarrow> nat \<Rightarrow> nat \<Rightarrow> block" where
  "set_inode_size b i v = put32 b (INODE_SIZE * i + 4) v"
definition set_inode_direct :: "block \<Rightarrow> nat \<Rightarrow> nat \<Rightarrow> nat \<Rightarrow> block" where
  "set_inode_direct b i k v = put32 b (INODE_SIZE * i + 8 + 4 * k) v"
definition set_inode_indirect :: "block \<Rightarrow> nat \<Rightarrow> nat \<Rightarrow> block" where
  "set_inode_indirect b i v = put32 b (INODE_SIZE * i + 8 + 4 * POINTERS_PER_INODE) v"

text \<open>\<^verbatim>\<open>block.pointers[i]\<close>\<close>
definition pointers :: "block \<Rightarrow> nat \<Rightarrow> nat" where
  "pointers b i = get32 b (4 * i)"
definition set_pointers :: "block \<Rightarrow> nat \<Rightarrow> nat \<Rightarrow> block" where
  "set_pointers b i v = put32 b (4 * i) v"

subsection \<open>The block device\<close>

text \<open>
  A \<^verbatim>\<open>Disk *\<close> is an address (0 is the null pointer) together with the structure it
  points to. The file behind \<^verbatim>\<open>fd\<close> was sized to \<^verbatim>\<open>blocks * BLOCK_SIZE\<close> bytes by
  \<^verbatim>\<open>disk_open\<close>; it is kept block by block, and \<^verbatim>\<open>read\<close> and \<^verbatim>\<open>write\<close> on it transfer a
  whole block.
\<close>

record Disk =
  blocks :: nat
  reads :: nat
  writes :: nat
  contents :: "nat \<Rightarrow> block"

definition disk_sanity_check :: "nat \<Rightarrow> Disk \<Rightarrow> nat \<Rightarrow> bool" where
  "disk_sanity_check p d block =
     (if p = 0 then False
      else if block \<ge> Disk.blocks d then False
      else True)"

text \<open>
  The result is the returned count, the new content of the caller's buffer (\<open>None\<close>
  when the buffer is left as it was) and the device.
\<close>
definition disk_read :: "nat \<Rightarrow> Disk \<Rightarrow> nat \<Rightarrow> int \<times> block option \<times> Disk" where
  "disk_read p d block =
     (if disk_sanity_check p d block
      then (int BLOCK_SIZE, Some (contents d block), d\<lparr>reads := reads d + 1\<rparr>)
      else (DISK_FAILURE, None, d))"

definition disk_write :: "nat \<Rightarrow> Disk \<Rightarrow> nat \<Rightarrow> block \<Rightarrow> int \<times> Disk" where
  "disk_write p d block data =
     (if disk_sanity_check p d block
      then (int BLOCK_SIZE, d\<lparr>writes := writes d + 1, contents := (contents d)(block := data)\<rparr>)
      else (DISK_FAILURE, d))"

subsection \<open>The engine state and undefined behaviour\<close>

text \<open>
  \<^verbatim>\<open>bool *free_blocks\<close> is null or an array of \<^verbatim>\<open>meta_data.blocks\<close> flags. What C leaves
  undefined is a value of its own: reading a buffer that a failed, unchecked
  \<^verbatim>\<open>disk_read\<close> left uninitialised, indexing an array outside its bounds, and
  dereferencing a null pointer.
\<close>

record FileSystem =
  disk :: nat
  free_blocks :: "bool list option"
  meta_data :: SuperBlock

datatype fault = UninitializedRead | OutOfBounds | NullPointer

datatype ('r, 's) step = Fault fault | Return 'r | Continue 's

definition set_free :: "bool list option \<Rightarrow> nat \<Rightarrow> bool \<Rightarrow> fault + bool list option" where
  "set_free fb i v =
     (case fb of None \<Rightarrow> Inl NullPointer
      | Some a \<Rightarrow> if i < length a then Inr (Some (a[i := v])) else Inl OutOfBounds)"

subsection \<open>fs_format\<close>

text \<open>
  The record that \<^verbatim>\<open>fs_format\<close> fills in its local \<^verbatim>\<open>format_block\<close>; the fields are
  32 bits wide.
\<close>
definition format_block :: "Disk \<Rightarrow> SuperBlock" where
  "format_block d =
     (let b = Disk.blocks d mod 2 ^ 32;
          ib = (if b mod 10 = 0 then (Disk.blocks d div 10) mod 2 ^ 32
                else (Disk.blocks d div 10 + 1) mod 2 ^ 32)
      in \<lparr>magic_number = MAGIC_NUMBER, blocks = b, inode_blocks = ib,
          inodes = (ib * INODES_PER_BLOCK) mod 2 ^ 32\<rparr>)"

text \<open>\<^verbatim>\<open>for (size_t i = 1; i < disk->blocks; i++)\<close>; \<^verbatim>\<open>!disk_write(..)\<close> tests for 0.\<close>
fun format_loop :: "nat \<Rightarrow> nat list \<Rightarrow> Disk \<Rightarrow> bool \<times> Disk" where
  "format_loop p [] d = (True, d)"
| "format_loop p (i # is) d =
     (case disk_write p d i zero_block of
        (r, d') \<Rightarrow> if r = 0 then (False, d') else format_loop p is d')"

definition fs_format :: "FileSystem \<Rightarrow> nat \<Rightarrow> Disk \<Rightarrow> bool \<times> Disk" where
  "fs_format fs p d =
     (if p = 0 then (False, d)
      else if disk fs \<noteq> 0 then (False, d)
      else if free_blocks fs \<noteq> None then (False, d)
      else let super_block = format_block d
           in format_loop p [1..<Disk.blocks d] d)"

subsection \<open>fs_initialize_free_block_bitmap\<close>

text \<open>The loop over \<^verbatim>\<open>dp\<close>: the direct pointers of inode \<open>i\<close> of \<open>blk\<close>.\<close>
fun bitmap_dp_loop :: "block \<Rightarrow> nat \<Rightarrow> nat list \<Rightarrow> bool list option \<Rightarrow> fault + bool list option" where
  "bitmap_dp_loop blk i [] fb = Inr fb"
| "bitmap_dp_loop blk i (dp # dps) fb =
     (if inode_direct blk i dp \<noteq> 0 then
        (case set_free fb (inode_direct blk i dp) False of
           Inl e \<Rightarrow> Inl e
         | Inr fb' \<Rightarrow> bitmap_dp_loop blk i dps fb')
      else bitmap_dp_loop blk i dps fb)"

text \<open>The loop over \<^verbatim>\<open>p\<close>: the pointers of an indirect block.\<close>
fun bitmap_p_loop :: "block \<Rightarrow> nat list \<Rightarrow> bool list option \<Rightarrow> fault + bool list option" where
  "bitmap_p_loop ind [] fb = Inr fb"
| "bitmap_p_loop ind (k # ks) fb =
     (if pointers ind k \<noteq> 0 then
        (case set_free fb (pointers ind k) False of
           Inl e \<Rightarrow> Inl e
         | Inr fb' \<Rightarrow> bitmap_p_loop ind ks fb')
      else bitmap_p_loop ind ks fb)"

text \<open>
  The loop over \<^verbatim>\<open>inode\<close>. \<open>Return\<close> is the \<^verbatim>\<open>return\<close> after a failed read of an
  indirect block.
\<close>
fun bitmap_inode_loop :: "nat \<Rightarrow> block \<Rightarrow> nat list \<Rightarrow> bool list option \<Rightarrow> Disk
    \<Rightarrow> (bool list option \<times> Disk, bool list option \<times> Disk) step" where
  "bitmap_inode_loop p blk [] fb d = Continue (fb, d)"
| "bitmap_inode_loop p blk (i # is) fb d =
     (if inode_valid blk i \<noteq> 0 then
        (case bitmap_dp_loop blk i [0..<POINTERS_PER_INODE] fb of
           Inl e \<Rightarrow> Fault e
         | Inr fb1 \<Rightarrow>
            if inode_indirect blk i \<noteq> 0 then
              (case set_free fb1 (inode_indirect blk i) False of
                 Inl e \<Rightarrow> Fault e
               | Inr fb2 \<Rightarrow>
                  (case disk_read p d (inode_indirect blk i) of
                     (r, buf, d1) \<Rightarrow>
                       if r = DISK_FAILURE then Return (fb2, d1)
                       else (case buf of
                           None \<Rightarrow> Fault UninitializedRead
                         | Some ind \<Rightarrow>
                            (case bitmap_p_loop ind [0..<POINTERS_PER_BLOCK] fb2 of
                               Inl e \<Rightarrow> Fault e
                             | Inr fb3 \<Rightarrow> bitmap_inode_loop p blk is fb3 d1))))
            else bitmap_inode_loop p blk is fb1 d)
      else bitmap_inode_loop p blk is fb d)"

text \<open>The loop over \<^verbatim>\<open>inode_block\<close>.\<close>
fun bitmap_block_loop :: "nat \<Rightarrow> nat list \<Rightarrow> bool list option \<Rightarrow> Disk
    \<Rightarrow> fault + (bool list option \<times> Disk)" where
  "bitmap_block_loop p [] fb d = Inr (fb, d)"
| "bitmap_block_loop p (b # bs) fb d =
     (case disk_read p d b of
        (r, buf, d1) \<Rightarrow>
          if r = DISK_FAILURE then Inr (fb, d1)
          else (case buf of
              None \<Rightarrow> Inl UninitializedRead
            | Some blk \<Rightarrow>
               (case bitmap_inode_loop p blk [0..<INODES_PER_BLOCK] fb d1 of
                  Fault e \<Rightarrow> Inl e
                | Return (fb1, d2) \<Rightarrow> Inr (fb1, d2)
                | Continue (fb1, d2) \<Rightarrow>
                   (case set_free fb1 b False of
                      Inl e \<Rightarrow> Inl e
                    | Inr fb2 \<Rightarrow> bitmap_block_loop p bs fb2 d2))))"

text \<open>\<^verbatim>\<open>calloc\<close> is taken to succeed; the first loop sets every flag.\<close>
definition fs_initialize_free_block_bitmap :: "FileSystem \<Rightarrow> Disk \<Rightarrow> fault + (FileSystem \<times> Disk)" where
  "fs_initialize_free_block_bitmap fs d =
     (case set_free (Some (replicate (SuperBlock.blocks (meta_data fs)) True)) 0 False of
        Inl e \<Rightarrow> Inl e
      | Inr fb0 \<Rightarrow>
         (case bitmap_block_loop (disk fs) [1..<inode_blocks (meta_data fs) + 1] fb0 d of
            Inl e \<Rightarrow> Inl e
          | Inr (fb, d') \<Rightarrow> Inr (fs\<lparr>free_blocks := fb\<rparr>, d')))"

subsection \<open>fs_mount and fs_unmount\<close>

text \<open>
  \<^verbatim>\<open>!disk_read(..)\<close> tests the returned count for 0; the multiplication is on 32-bit
  unsigned integers.
\<close>
definition fs_mount :: "FileSystem \<Rightarrow> nat \<Rightarrow> Disk \<Rightarrow> fault + (bool \<times> FileSystem \<times> Disk)" where
  "fs_mount fs p d =
     (if disk fs = p then Inr (False, fs, d)
      else case disk_read p d 0 of
        (r, buf, d1) \<Rightarrow>
          if r = 0 then Inr (False, fs, d1)
          else (case buf of
              None \<Rightarrow> Inl UninitializedRead
            | Some b \<Rightarrow>
               let sb = super b in
               if magic_number sb \<noteq> MAGIC_NUMBER then Inr (False, fs, d1)
               else if (inode_blocks sb * INODES_PER_BLOCK) mod 2 ^ 32 > inodes sb then Inr (False, fs, d1)
               else if SuperBlock.blocks sb < 3 then Inr (False, fs, d1)
               else if inode_blocks sb < SuperBlock.blocks sb div 10 then Inr (False, fs, d1)
               else (case fs_initialize_free_block_bitmap (fs\<lparr>meta_data := sb, disk := p\<rparr>) d1 of
                   Inl e \<Rightarrow> Inl e
                 | Inr (fs', d2) \<Rightarrow> Inr (True, fs', d2))))"

definition fs_unmount :: "FileSystem \<Rightarrow> FileSystem" where
  "fs_unmount fs = fs\<lparr>disk := 0, free_blocks := None\<rparr>"


subsection \<open>fs_create\<close>

text \<open>
  The loop over \<^verbatim>\<open>inode\<close> within one inode-table block: \<open>Return\<close> is the
  \<^verbatim>\<open>return inode_count\<close>, after the unchecked \<^verbatim>\<open>disk_write\<close>.
\<close>
fun create_inode_loop :: "nat \<Rightarrow> Disk \<Rightarrow> nat \<Rightarrow> block \<Rightarrow> nat list \<Rightarrow> int
    \<Rightarrow> (int \<times> Disk, int) step" where
  "create_inode_loop p d inode_block block [] inode_count = Continue inode_count"
| "create_inode_loop p d inode_block block (inode # rest) inode_count =
     (if inode_valid block inode = 0 then
        (case disk_write p d inode_block (set_inode_valid block inode 1) of
           (r, d') \<Rightarrow> Return (inode_count, d'))
      else create_inode_loop p d inode_block block rest (inode_count + 1))"

text \<open>
  The loop over \<^verbatim>\<open>inode_block\<close>. The result of \<^verbatim>\<open>disk_read\<close> is not checked, so after
  a failed read the loop looks at an uninitialised buffer.
\<close>
fun create_block_loop :: "nat \<Rightarrow> nat list \<Rightarrow> Disk \<Rightarrow> int \<Rightarrow> fault + (int \<times> Disk)" where
  "create_block_loop p [] d inode_count = Inr (- 1, d)"
| "create_block_loop p (inode_block # rest) d inode_count =
     (case disk_read p d inode_block of
        (r, buf, d1) \<Rightarrow>
          (case buf of
             None \<Rightarrow> Inl UninitializedRead
           | Some block \<Rightarrow>
              (case create_inode_loop p d1 inode_block block [0..<INODES_PER_BLOCK] inode_count of
                 Fault e \<Rightarrow> Inl e
               | Return res \<Rightarrow> Inr res
               | Continue c \<Rightarrow> create_block_loop p rest d1 c)))"

definition fs_create :: "FileSystem \<Rightarrow> Disk \<Rightarrow> fault + (int \<times> Disk)" where
  "fs_create fs d =
     create_block_loop (disk fs) [1..<inode_blocks (meta_data fs) + 1] d 0"

subsection \<open>fs_remove\<close>

fun remove_dp_loop :: "nat \<Rightarrow> nat list \<Rightarrow> block \<Rightarrow> bool list option
    \<Rightarrow> fault + (block \<times> bool list option)" where
  "remove_dp_loop inode_i [] blk fb = Inr (blk, fb)"
| "remove_dp_loop inode_i (dp # dps) blk fb =
     (if inode_direct blk inode_i dp = 0 then remove_dp_loop inode_i dps blk fb
      else (case set_free fb (inode_direct blk inode_i dp) True of
          Inl e \<Rightarrow> Inl e
        | Inr fb' \<Rightarrow> remove_dp_loop inode_i dps (set_inode_direct blk inode_i dp 0) fb'))"

fun remove_ip_loop :: "nat list \<Rightarrow> block \<Rightarrow> bool list option
    \<Rightarrow> fault + (block \<times> bool list option)" where
  "remove_ip_loop [] ind_blk fb = Inr (ind_blk, fb)"
| "remove_ip_loop (ip # ips) ind_blk fb =
     (if pointers ind_blk ip = 0 then remove_ip_loop ips ind_blk fb
      else (case set_free fb (pointers ind_blk ip) True of
          Inl e \<Rightarrow> Inl e
        | Inr fb' \<Rightarrow> remove_ip_loop ips (set_pointers ind_blk ip 0) fb'))"

text \<open>The block \<^verbatim>\<open>if (blk.inodes[inode_i].indirect != 0) { .. }\<close>.\<close>
definition remove_indirect :: "nat \<Rightarrow> nat \<Rightarrow> block \<Rightarrow> bool list option \<Rightarrow> Disk
    \<Rightarrow> fault + (block \<times> bool list option \<times> Disk)" where
  "remove_indirect p inode_i blk fb d =
     (if inode_indirect blk inode_i \<noteq> 0 then
        (case disk_read p d (inode_indirect blk inode_i) of
           (r, buf, d1) \<Rightarrow>
             (case buf of
                None \<Rightarrow> Inl UninitializedRead
              | Some ind_blk \<Rightarrow>
                 (case remove_ip_loop [0..<POINTERS_PER_BLOCK] ind_blk fb of
                    Inl e \<Rightarrow> Inl e
                  | Inr (ind_blk', fb1) \<Rightarrow>
                     (case set_free fb1 (inode_indirect blk inode_i) True of
                        Inl e \<Rightarrow> Inl e
                      | Inr fb2 \<Rightarrow>
                         (case disk_write p d1 (inode_indirect blk inode_i) ind_blk' of
                            (w, d2) \<Rightarrow> Inr (set_inode_indirect blk inode_i 0, fb2, d2))))))
      else Inr (blk, fb, d))"

definition fs_remove :: "FileSystem \<Rightarrow> Disk \<Rightarrow> nat \<Rightarrow> fault + (bool \<times> FileSystem \<times> Disk)" where
  "fs_remove fs d inode_number =
     (let block_num = inode_number div INODES_PER_BLOCK + 1;
          inode_i = inode_number mod INODES_PER_BLOCK
      in case disk_read (disk fs) d block_num of
        (r, buf, d1) \<Rightarrow>
          (case buf of
             None \<Rightarrow> Inl UninitializedRead
           | Some blk \<Rightarrow>
              if inode_valid blk inode_i = 0 then Inr (False, fs, d1)
              else (case remove_dp_loop inode_i [0..<POINTERS_PER_INODE] blk (free_blocks fs) of
                  Inl e \<Rightarrow> Inl e
                | Inr (blk1, fb1) \<Rightarrow>
                   (case remove_indirect (disk fs) inode_i blk1 fb1 d1 of
                      Inl e \<Rightarrow> Inl e
                    | Inr (blk2, fb2, d2) \<Rightarrow>
                       (case disk_write (disk fs) d2 block_num
                               (set_inode_valid (set_inode_size blk2 inode_i 0) inode_i 0) of
                          (w, d3) \<Rightarrow> Inr (True, fs\<lparr>free_blocks := fb2\<rparr>, d3))))))"

subsection \<open>fs_stat\<close>

definition fs_stat :: "FileSystem \<Rightarrow> Disk \<Rightarrow> nat \<Rightarrow> fault + (int \<times> Disk)" where
  "fs_stat fs d inode_number =
     (let block_num = inode_number div INODES_PER_BLOCK + 1;
          inode_i = inode_number mod INODES_PER_BLOCK
      in case disk_read (disk fs) d block_num of
        (r, buf, d1) \<Rightarrow>
          (case buf of
             None \<Rightarrow> Inl UninitializedRead
           | Some blk \<Rightarrow>
              if inode_valid blk inode_i \<noteq> 0 then Inr (int (inode_size blk inode_i), d1)
              else Inr (- 1, d1)))"

subsection \<open>find_free_block\<close>

fun find_free_loop :: "nat list \<Rightarrow> bool list option \<Rightarrow> fault + (nat \<times> bool list option)" where
  "find_free_loop [] fb = Inr (0, fb)"
| "find_free_loop (i # is) fb =
     (case fb of
        None \<Rightarrow> Inl NullPointer
      | Some a \<Rightarrow>
         if i \<ge> length a then Inl OutOfBounds
         else if a ! i then Inr (i, Some (a[i := False]))
         else find_free_loop is fb)"

definition find_free_block :: "FileSystem \<Rightarrow> fault + (nat \<times> FileSystem)" where
  "find_free_block fs =
     (case find_free_loop [0..<SuperBlock.blocks (meta_data fs)] (free_blocks fs) of
        Inl e \<Rightarrow> Inl e
      | Inr (i, fb) \<Rightarrow> Inr (i, fs\<lparr>free_blocks := fb\<rparr>))"

subsection \<open>fs_read\<close>

text \<open>
  \<^verbatim>\<open>memcpy(dst + doff, src + soff, n)\<close> on two buffers given by their bytes. The
  caller's \<^verbatim>\<open>data\<close> buffer is the memory from its address on; a block buffer ends at
  \<^verbatim>\<open>BLOCK_SIZE\<close>, and a copy that runs past it is undefined.
\<close>
definition memcpy :: "(nat \<Rightarrow> byte) \<Rightarrow> nat \<Rightarrow> (nat \<Rightarrow> byte) \<Rightarrow> nat \<Rightarrow> nat \<Rightarrow> (nat \<Rightarrow> byte)" where
  "memcpy dst doff src soff n =
     (\<lambda>i. if doff \<le> i \<and> i < doff + n then src (soff + (i - doff)) else dst i)"

text \<open>Addition and subtraction of \<^verbatim>\<open>size_t\<close> values (64 bits, wrapping).\<close>
definition add64 :: "nat \<Rightarrow> nat \<Rightarrow> nat" where
  "add64 a b = (a + b) mod 2 ^ 64"
definition sub64 :: "nat \<Rightarrow> nat \<Rightarrow> nat" where
  "sub64 a b = (2 ^ 64 + a mod 2 ^ 64 - b mod 2 ^ 64) mod 2 ^ 64"

text \<open>
  The first half of the loop body: the device reads that fetch the data block of logical
  block \<open>data_block\<close>. Both local buffers start zero-filled.
\<close>
definition read_fetch :: "nat \<Rightarrow> block \<Rightarrow> nat \<Rightarrow> nat \<Rightarrow> Disk \<Rightarrow> (int \<times> Disk, block \<times> Disk) step" where
  "read_fetch p blk inode_i data_block d =
     (if data_block < POINTERS_PER_INODE then
        (case disk_read p d (inode_direct blk inode_i data_block) of
           (r, buf, d1) \<Rightarrow>
             if r = DISK_FAILURE then Return (- 1, d1)
             else Continue (case buf of None \<Rightarrow> zero_block | Some b \<Rightarrow> b, d1))
      else
        (let indirect_offset = data_block - POINTERS_PER_INODE
         in case disk_read p d (inode_indirect blk inode_i) of
           (r, buf, d1) \<Rightarrow>
             if r = DISK_FAILURE then Return (- 1, d1)
             else (let indirect_blk = (case buf of None \<Rightarrow> zero_block | Some b \<Rightarrow> b)
               in if indirect_offset \<ge> POINTERS_PER_BLOCK then Fault OutOfBounds
                  else (case disk_read p d1 (pointers indirect_blk indirect_offset) of
                     (r2, buf2, d2) \<Rightarrow>
                       if r2 = DISK_FAILURE then Return (- 1, d2)
                       else Continue (case buf2 of None \<Rightarrow> zero_block | Some b \<Rightarrow> b, d2)))))"

text \<open>
  The loop state is \<^verbatim>\<open>data_block\<close>, \<^verbatim>\<open>nread\<close>, \<^verbatim>\<open>data_offset\<close>, \<^verbatim>\<open>ncopy\<close>, the
  caller's buffer and the device.
\<close>
type_synonym read_state = "nat \<times> nat \<times> nat \<times> nat \<times> (nat \<Rightarrow> byte) \<times> Disk"

definition read_step :: "nat \<Rightarrow> block \<Rightarrow> nat \<Rightarrow> nat \<Rightarrow> read_state
    \<Rightarrow> (int \<times> (nat \<Rightarrow> byte) \<times> Disk, read_state) step" where
  "read_step p blk inode_i len s =
     (case s of (data_block, nread, data_offset, ncopy, data, d) \<Rightarrow>
        (case read_fetch p blk inode_i data_block d of
           Fault e \<Rightarrow> Fault e
         | Return (r, d') \<Rightarrow> Return (r, data, d')
         | Continue (data_blk, d') \<Rightarrow>
            if data_offset + ncopy > BLOCK_SIZE then Fault OutOfBounds
            else (let data' = memcpy data nread data_blk data_offset ncopy;
                      nread' = nread + ncopy;
                      ncopy' = (if sub64 len nread' > BLOCK_SIZE then BLOCK_SIZE
                                else sub64 len nread')
                  in Continue (data_block + 1, nread', 0, ncopy', data', d'))))"

function read_loop :: "nat \<Rightarrow> block \<Rightarrow> nat \<Rightarrow> nat \<Rightarrow> read_state
    \<Rightarrow> fault + (int \<times> (nat \<Rightarrow> byte) \<times> Disk)" where
  "read_loop p blk inode_i len (data_block, nread, data_offset, ncopy, data, d) =
     (if nread < len then
        (case read_step p blk inode_i len (data_block, nread, data_offset, ncopy, data, d) of
           Fault e \<Rightarrow> Inl e
         | Return res \<Rightarrow> Inr res
         | Continue s' \<Rightarrow> read_loop p blk inode_i len s')
      else Inr (int nread, data, d))"
  by pat_completeness auto
termination
proof (relation "measure (\<lambda>(p, blk, inode_i, len, data_block, rest).
    POINTERS_PER_INODE + POINTERS_PER_BLOCK - data_block)")
  show "wf (measure (\<lambda>(p, blk, inode_i, len, data_block, rest).
    POINTERS_PER_INODE + POINTERS_PER_BLOCK - data_block))" by simp
next
  fix p blk inode_i len data_block nread data_offset ncopy d s'
  fix data :: "nat \<Rightarrow> byte"
  assume "read_step p blk inode_i len (data_block, nread, data_offset, ncopy, data, d) = Continue s'"
  then have "fst s' = data_block + 1 \<and> data_block < POINTERS_PER_INODE + POINTERS_PER_BLOCK"
    by (auto simp add: read_step_def read_fetch_def Let_def
        split: step.splits prod.splits if_splits)
  then show "((p, blk, inode_i, len, s'), (p, blk, inode_i, len, data_block, nread, data_offset, ncopy, data, d))
      \<in> measure (\<lambda>(p, blk, inode_i, len, data_block, rest).
          POINTERS_PER_INODE + POINTERS_PER_BLOCK - data_block)"
    by (cases s') auto
qed

text \<open>
  The arguments are \<^verbatim>\<open>size_t\<close> values, below \<open>2 ^ 64\<close>. The inode is not checked
  for \<^verbatim>\<open>valid\<close>.
\<close>
definition fs_read :: "FileSystem \<Rightarrow> Disk \<Rightarrow> nat \<Rightarrow> (nat \<Rightarrow> byte) \<Rightarrow> nat \<Rightarrow> nat
    \<Rightarrow> fault + (int \<times> (nat \<Rightarrow> byte) \<times> Disk)" where
  "fs_read fs d inode_number data len offset =
     (let block_num = inode_number div INODES_PER_BLOCK + 1;
          inode_i = inode_number mod INODES_PER_BLOCK
      in case disk_read (disk fs) d block_num of
        (r, buf, d1) \<Rightarrow>
          (case buf of
             None \<Rightarrow> Inl UninitializedRead
           | Some blk \<Rightarrow>
              (let len' = (if inode_size blk inode_i < add64 len offset
                              then sub64 (inode_size blk inode_i) offset
                              else len);
                   data_block = offset div BLOCK_SIZE;
                   data_offset = offset mod BLOCK_SIZE;
                   ncopy = (if len' < BLOCK_SIZE then len' else BLOCK_SIZE - data_offset)
               in read_loop (disk fs) blk inode_i len'
                    (data_block, 0, data_offset, ncopy, data, d1))))"


subsection \<open>fs_write\<close>

text \<open>
  The branch \<^verbatim>\<open>data_block < POINTERS_PER_INODE\<close> of the loop body. \<open>Return\<close> is a
  \<^verbatim>\<open>return -1\<close>; what was changed before it stays changed.
\<close>
definition write_direct :: "FileSystem \<Rightarrow> Disk \<Rightarrow> block \<Rightarrow> nat \<Rightarrow> nat \<Rightarrow> nat \<Rightarrow> nat
    \<Rightarrow> (nat \<Rightarrow> byte) \<Rightarrow> nat
    \<Rightarrow> (int \<times> FileSystem \<times> Disk, block \<times> FileSystem \<times> Disk) step" where
  "write_direct fs d blk inode_i data_block data_offset ncopy data nwrite =
     (case (if inode_direct blk inode_i data_block = 0 then
              (case find_free_block fs of
                 Inl e \<Rightarrow> Fault e
               | Inr (new_block, fs1) \<Rightarrow>
                  if new_block = 0 then Return (- 1, fs1, d)
                  else Continue (set_inode_direct blk inode_i data_block new_block, fs1))
            else Continue (blk, fs)) of
        Fault e \<Rightarrow> Fault e
      | Return res \<Rightarrow> Return res
      | Continue (blk1, fs1) \<Rightarrow>
         (case disk_read (disk fs) d (inode_direct blk1 inode_i data_block) of
            (r, buf, d1) \<Rightarrow>
              if r = DISK_FAILURE then Return (- 1, fs1, d1)
              else (let data_blk = (case buf of None \<Rightarrow> zero_block | Some b \<Rightarrow> b)
                in if data_offset + ncopy > BLOCK_SIZE then Fault OutOfBounds
                   else (case disk_write (disk fs) d1 (inode_direct blk1 inode_i data_block)
                                (memcpy data_blk data_offset data nwrite ncopy) of
                      (w, d2) \<Rightarrow>
                        if w = DISK_FAILURE then Return (- 1, fs1, d2)
                        else Continue (blk1, fs1, d2)))))"

text \<open>
  The \<^verbatim>\<open>else\<close> branch, first part: the indirect block is allocated (its buffer stays
  zero-filled) or read.
\<close>
definition write_indirect_block :: "FileSystem \<Rightarrow> Disk \<Rightarrow> block \<Rightarrow> nat
    \<Rightarrow> (int \<times> FileSystem \<times> Disk, block \<times> block \<times> FileSystem \<times> Disk) step" where
  "write_indirect_block fs d blk inode_i =
     (if inode_indirect blk inode_i = 0 then
        (case find_free_block fs of
           Inl e \<Rightarrow> Fault e
         | Inr (new_block, fs1) \<Rightarrow>
            if new_block = 0 then Return (- 1, fs1, d)
            else Continue (set_inode_indirect blk inode_i new_block, zero_block, fs1, d))
      else
        (case disk_read (disk fs) d (inode_indirect blk inode_i) of
           (r, buf, d1) \<Rightarrow>
             if r = DISK_FAILURE then Return (- 1, fs, d1)
             else Continue (blk, (case buf of None \<Rightarrow> zero_block | Some b \<Rightarrow> b), fs, d1)))"

text \<open>
  Second part: the data block is allocated (the indirect block is written, the data
  buffer stays zero-filled) or read.
\<close>
definition write_indirect_data :: "FileSystem \<Rightarrow> Disk \<Rightarrow> block \<Rightarrow> nat \<Rightarrow> block \<Rightarrow> nat
    \<Rightarrow> (int \<times> FileSystem \<times> Disk, block \<times> block \<times> FileSystem \<times> Disk) step" where
  "write_indirect_data fs d blk inode_i indirect_blk indirect_offset =
     (if pointers indirect_blk indirect_offset = 0 then
        (case find_free_block fs of
           Inl e \<Rightarrow> Fault e
         | Inr (new_block, fs1) \<Rightarrow>
            if new_block = 0 then Return (- 1, fs1, d)
            else (let indirect_blk' = set_pointers indirect_blk indirect_offset new_block
              in case disk_write (disk fs) d (inode_indirect blk inode_i) indirect_blk' of
                (w, d1) \<Rightarrow>
                  if w = DISK_FAILURE then Return (- 1, fs1, d1)
                  else Continue (indirect_blk', zero_block, fs1, d1)))
      else
        (case disk_read (disk fs) d (pointers indirect_blk indirect_offset) of
           (r, buf, d1) \<Rightarrow>
             if r = DISK_FAILURE then Return (- 1, fs, d1)
             else Continue (indirect_blk, (case buf of None \<Rightarrow> zero_block | Some b \<Rightarrow> b), fs, d1)))"

text \<open>Indexing \<^verbatim>\<open>indirect_blk.pointers\<close> at or past \<^verbatim>\<open>POINTERS_PER_BLOCK\<close> is undefined.\<close>
definition write_indirect :: "FileSystem \<Rightarrow> Disk \<Rightarrow> block \<Rightarrow> nat \<Rightarrow> nat \<Rightarrow> nat \<Rightarrow> nat
    \<Rightarrow> (nat \<Rightarrow> byte) \<Rightarrow> nat
    \<Rightarrow> (int \<times> FileSystem \<times> Disk, block \<times> FileSystem \<times> Disk) step" where
  "write_indirect fs d blk inode_i data_block data_offset ncopy data nwrite =
     (let indirect_offset = data_block - POINTERS_PER_INODE
      in case write_indirect_block fs d blk inode_i of
        Fault e \<Rightarrow> Fault e
      | Return res \<Rightarrow> Return res
      | Continue (blk1, indirect_blk, fs1, d1) \<Rightarrow>
         if indirect_offset \<ge> POINTERS_PER_BLOCK then Fault OutOfBounds
         else (case write_indirect_data fs1 d1 blk1 inode_i indirect_blk indirect_offset of
             Fault e \<Rightarrow> Fault e
           | Return res \<Rightarrow> Return res
           | Continue (indirect_blk1, data_blk, fs2, d2) \<Rightarrow>
              if data_offset + ncopy > BLOCK_SIZE then Fault OutOfBounds
              else (case disk_write (disk fs) d2 (pointers indirect_blk1 indirect_offset)
                           (memcpy data_blk data_offset data nwrite ncopy) of
                 (w, d3) \<Rightarrow>
                   if w = DISK_FAILURE then Return (- 1, fs2, d3)
                   else Continue (blk1, fs2, d3))))"

text \<open>
  The part of the loop body before the bookkeeping: \<open>Continue\<close> carries \<^verbatim>\<open>blk\<close>, the
  engine and the device on to the end of the iteration.
\<close>
definition write_block :: "FileSystem \<Rightarrow> Disk \<Rightarrow> block \<Rightarrow> nat \<Rightarrow> nat \<Rightarrow> nat \<Rightarrow> nat
    \<Rightarrow> (nat \<Rightarrow> byte) \<Rightarrow> nat
    \<Rightarrow> (int \<times> FileSystem \<times> Disk, block \<times> FileSystem \<times> Disk) step" where
  "write_block fs d blk inode_i data_block data_offset ncopy data nwrite =
     (if data_block < POINTERS_PER_INODE
      then write_direct fs d blk inode_i data_block data_offset ncopy data nwrite
      else write_indirect fs d blk inode_i data_block data_offset ncopy data nwrite)"

text \<open>
  The loop state is the inode-table block \<^verbatim>\<open>blk\<close> held in memory, \<^verbatim>\<open>data_block\<close>,
  \<^verbatim>\<open>nwrite\<close>, \<^verbatim>\<open>data_offset\<close>, \<^verbatim>\<open>ncopy\<close>, the engine and the device. One iteration ends
  with the update of \<^verbatim>\<open>size\<close> (a 32-bit field) and the unchecked write of \<^verbatim>\<open>blk\<close>.
\<close>
type_synonym write_state = "block \<times> nat \<times> nat \<times> nat \<times> nat \<times> FileSystem \<times> Disk"

definition write_step :: "nat \<Rightarrow> nat \<Rightarrow> (nat \<Rightarrow> byte) \<Rightarrow> nat \<Rightarrow> nat \<Rightarrow> write_state
    \<Rightarrow> (int \<times> FileSystem \<times> Disk, write_state) step" where
  "write_step block_num inode_i data len offset s =
     (case s of (blk, data_block, nwrite, data_offset, ncopy, fs, d) \<Rightarrow>
        (case write_block fs d blk inode_i data_block data_offset ncopy data nwrite of
           Fault e \<Rightarrow> Fault e
         | Return res \<Rightarrow> Return res
         | Continue (blk1, fs1, d1) \<Rightarrow>
            (let nwrite' = nwrite + ncopy;
                 ncopy' = (if sub64 len nwrite' > BLOCK_SIZE then BLOCK_SIZE
                           else sub64 len nwrite');
                 blk2 = (if add64 offset nwrite' > inode_size blk1 inode_i
                         then set_inode_size blk1 inode_i (add64 offset nwrite')
                         else blk1)
             in case disk_write (disk fs) d1 block_num blk2 of
               (w, d2) \<Rightarrow> Continue (blk2, data_block + 1, nwrite', 0, ncopy', fs1, d2))))"

function write_loop :: "nat \<Rightarrow> nat \<Rightarrow> (nat \<Rightarrow> byte) \<Rightarrow> nat \<Rightarrow> nat \<Rightarrow> write_state
    \<Rightarrow> fault + (int \<times> FileSystem \<times> Disk)" where
  "write_loop block_num inode_i data len offset (blk, data_block, nwrite, data_offset, ncopy, fs, d) =
     (if nwrite < len then
        (case write_step block_num inode_i data len offset
                (blk, data_block, nwrite, data_offset, ncopy, fs, d) of
           Fault e \<Rightarrow> Inl e
         | Return res \<Rightarrow> Inr res
         | Continue s' \<Rightarrow> write_loop block_num inode_i data len offset s')
      else Inr (int nwrite, fs, d))"
  by pat_completeness auto
termination
proof (relation "measure (\<lambda>(block_num, inode_i, data, len, offset, blk, data_block, rest).
    POINTERS_PER_INODE + POINTERS_PER_BLOCK - data_block)")
  show "wf (measure (\<lambda>(block_num, inode_i, data, len, offset, blk, data_block, rest).
    POINTERS_PER_INODE + POINTERS_PER_BLOCK - data_block))" by simp
next
  fix block_num inode_i len offset blk data_block nwrite data_offset ncopy fs d s'
  fix data :: "nat \<Rightarrow> byte"
  assume st: "write_step block_num inode_i data len offset
      (blk, data_block, nwrite, data_offset, ncopy, fs, d) = Continue s'"
  then obtain x where wb: "write_block fs d blk inode_i data_block data_offset ncopy data nwrite = Continue x"
    by (cases "write_block fs d blk inode_i data_block data_offset ncopy data nwrite")
       (simp_all add: write_step_def)
  have "data_block < POINTERS_PER_INODE + POINTERS_PER_BLOCK"
  proof (cases "data_block < POINTERS_PER_INODE")
    case True
    then show ?thesis by simp
  next
    case False
    with wb have wi: "write_indirect fs d blk inode_i data_block data_offset ncopy data nwrite = Continue x"
      by (simp add: write_block_def)
    have "data_block - POINTERS_PER_INODE < POINTERS_PER_BLOCK"
    proof (cases "write_indirect_block fs d blk inode_i")
      case (Fault e)
      with wi show ?thesis by (simp add: write_indirect_def)
    next
      case (Return res)
      with wi show ?thesis by (simp add: write_indirect_def)
    next
      case (Continue y)
      with wi show ?thesis
        by (cases y) (simp add: write_indirect_def Let_def split: if_splits)
    qed
    with False show ?thesis by simp
  qed
  moreover have "fst (snd s') = data_block + 1"
    using st wb by (cases x) (auto simp add: write_step_def Let_def split: prod.splits)
  ultimately show "((block_num, inode_i, data, len, offset, s'),
      (block_num, inode_i, data, len, offset, blk, data_block, nwrite, data_offset, ncopy, fs, d))
      \<in> measure (\<lambda>(block_num, inode_i, data, len, offset, blk, data_block, rest).
          POINTERS_PER_INODE + POINTERS_PER_BLOCK - data_block)"
    by (cases s') auto
qed

text \<open>The check of \<^verbatim>\<open>valid\<close> comes after the setup of the walk and before the loop.\<close>
definition fs_write :: "FileSystem \<Rightarrow> Disk \<Rightarrow> nat \<Rightarrow> (nat \<Rightarrow> byte) \<Rightarrow> nat \<Rightarrow> nat
    \<Rightarrow> fault + (int \<times> FileSystem \<times> Disk)" where
  "fs_write fs d inode_number data len offset =
     (let block_num = inode_number div INODES_PER_BLOCK + 1;
          inode_i = inode_number mod INODES_PER_BLOCK
      in case disk_read (disk fs) d block_num of
        (r, buf, d1) \<Rightarrow>
          (case buf of
             None \<Rightarrow> Inl UninitializedRead
           | Some blk \<Rightarrow>
              (let data_block = offset div BLOCK_SIZE;
                   data_offset = offset mod BLOCK_SIZE;
                   ncopy = (if len < BLOCK_SIZE then len else BLOCK_SIZE - data_offset)
               in if inode_valid blk inode_i = 0 then Inr (- 1, fs, d1)
                  else write_loop block_num inode_i data len offset
                         (blk, data_block, 0, data_offset, ncopy, fs, d1))))"

subsection \<open>Devices and engines used as concrete inputs\<close>

text \<open>
  A block holding a superblock record, a device as \<^verbatim>\<open>disk_open\<close> leaves a new file
  (all zero), a device of the same size that holds the superblock \<^verbatim>\<open>fs_format\<close>
  computes, an engine that was never mounted, and the engine after mounting that device
  at address \<open>p\<close>.
\<close>

definition super_image :: "SuperBlock \<Rightarrow> block" where
  "super_image sb = put32 (put32 (put32 (put32 zero_block 0 (magic_number sb)) 4
     (SuperBlock.blocks sb)) 8 (inode_blocks sb)) 12 (inodes sb)"

definition fresh_disk :: "nat \<Rightarrow> Disk" where
  "fresh_disk n = \<lparr>Disk.blocks = n, reads = 0, writes = 0, contents = (\<lambda>_. zero_block)\<rparr>"

definition sfs_disk :: "nat \<Rightarrow> Disk" where
  "sfs_disk n = (fresh_disk n)\<lparr>contents := (\<lambda>_. zero_block)(0 := super_image (format_block (fresh_disk n)))\<rparr>"

definition unmounted_fs :: FileSystem where
  "unmounted_fs = \<lparr>disk = 0, free_blocks = None,
     meta_data = \<lparr>magic_number = 0, SuperBlock.blocks = 0, inode_blocks = 0, inodes = 0\<rparr>\<rparr>"

definition mounted_fs :: "nat \<Rightarrow> FileSystem" where
  "mounted_fs p = \<lparr>disk = p,
     free_blocks = Some ((replicate 20 True)[0 := False, 1 := False, 2 := False]),
     meta_data = format_block (fresh_disk 20)\<rparr>"

text \<open>
  Whether the slot of inode number \<open>k\<close> holds a valid inode on the device, with the
  addressing every operation uses; and a device of 20 blocks whose bytes are all 1, so
  that every slot of every block is valid.
\<close>
definition slot_valid :: "Disk \<Rightarrow> nat \<Rightarrow> bool" where
  "slot_valid d k =
     (inode_valid (contents d (k div INODES_PER_BLOCK + 1)) (k mod INODES_PER_BLOCK) \<noteq> 0)"

definition full_disk :: Disk where
  "full_disk = \<lparr>Disk.blocks = 20, reads = 0, writes = 0, contents = (\<lambda>_ _. 1)\<rparr>"


text \<open>
  The blocks an inode owns on the device: its non-zero direct pointers, then, when the
  indirect pointer is not zero, the indirect block and the non-zero pointers it holds.
\<close>
definition owned_blocks :: "Disk \<Rightarrow> nat \<Rightarrow> nat list" where
  "owned_blocks d n =
     (let blk = contents d (n div INODES_PER_BLOCK + 1);
          i = n mod INODES_PER_BLOCK
      in filter (\<lambda>b. b \<noteq> 0) (map (inode_direct blk i) [0..<POINTERS_PER_INODE]) @
         (if inode_indirect blk i = 0 then []
          else inode_indirect blk i #
            filter (\<lambda>b. b \<noteq> 0)
              (map (pointers (contents d (inode_indirect blk i))) [0..<POINTERS_PER_BLOCK])))"

text \<open>
  A device with one file: inode 0 is valid, has 24576 bytes, the direct blocks 3 to 7 and
  the indirect block 8, which points to block 9; and the engine mounted on it.
\<close>
definition file_inode_block :: block where
  "file_inode_block =
     set_inode_indirect
       (set_inode_direct (set_inode_direct (set_inode_direct (set_inode_direct (set_inode_direct
          (set_inode_size (set_inode_valid zero_block 0 1) 0 24576) 0 0 3) 0 1 4) 0 2 5) 0 3 6) 0 4 7)
       0 8"

definition file_disk :: Disk where
  "file_disk = (sfs_disk 20)\<lparr>contents := (contents (sfs_disk 20))
     (1 := file_inode_block, 8 := set_pointers zero_block 0 9)\<rparr>"

definition file_fs :: FileSystem where
  "file_fs = (mounted_fs 1)\<lparr>free_blocks := Some (replicate 10 False @ replicate 10 True)\<rparr>"


text \<open>The \<^verbatim>\<open>size\<close> field stored in the slot of inode number \<open>n\<close>.\<close>
definition stored_size :: "Disk \<Rightarrow> nat \<Rightarrow> nat" where
  "stored_size d n =
     inode_size (contents d (n div INODES_PER_BLOCK + 1)) (n mod INODES_PER_BLOCK)"

text \<open>
  A device with a sparse file, as a write of one block at offset 4096 to a new inode
  leaves it: inode 0 is valid, has 8192 bytes, and only its second direct pointer is
  set (block 3); and the engine mounted on it.
\<close>
definition sparse_disk :: Disk where
  "sparse_disk = (sfs_disk 20)\<lparr>contents := (contents (sfs_disk 20))
     (1 := set_inode_direct (set_inode_size (set_inode_valid zero_block 0 1) 0 8192) 0 1 3)\<rparr>"

definition sparse_fs :: FileSystem where
  "sparse_fs = (mounted_fs 1)\<lparr>free_blocks :=
     Some ((replicate 20 True)[0 := False, 1 := False, 2 := False, 3 := False])\<rparr>"


text \<open>
  The device \<^verbatim>\<open>sfs_disk 20\<close> after \<^verbatim>\<open>fs_create\<close> has allocated inode 0 on it.
\<close>
definition created_disk :: Disk where
  "created_disk = (sfs_disk 20)\<lparr>reads := 1, writes := 1,
     contents := (contents (sfs_disk 20))(1 := set_inode_valid zero_block 0 1)\<rparr>"


text \<open>
  The bytes of an inode record in a caller's buffer (valid, 16 bytes, first direct
  pointer 3), and the engine and the device after \<^verbatim>\<open>fs_write\<close> has written the first 32
  bytes of that buffer at offset 0 of inode 0: block 3 is allocated and holds the bytes.
\<close>
definition fake_inode :: block where
  "fake_inode = set_inode_direct (set_inode_size (set_inode_valid zero_block 0 1) 0 16) 0 0 3"

definition written_fs :: FileSystem where
  "written_fs = (mounted_fs 1)\<lparr>free_blocks :=
     Some ((replicate 20 True)[0 := False, 1 := False, 2 := False, 3 := False])\<rparr>"

definition written_disk :: Disk where
  "written_disk = created_disk\<lparr>reads := 3, writes := 3,
     contents := (contents created_disk)
       (3 := memcpy zero_block 0 fake_inode 0 32,
        1 := set_inode_size (set_inode_direct (set_inode_valid zero_block 0 1) 0 0 3) 0 32)\<rparr>"


text \<open>
  The engine and the device after \<^verbatim>\<open>fs_remove\<close> of inode number 256 in that state, at the
  end of the sequence mount, create, write, remove.
\<close>
definition removed_fs :: FileSystem where
  "removed_fs = (mounted_fs 1)\<lparr>free_blocks :=
     Some ((replicate 20 True)[0 := False, 1 := False, 2 := False, 3 := False, 3 := True])\<rparr>"

definition removed_disk :: Disk where
  "removed_disk = written_disk\<lparr>reads := 7, writes := 4,
     contents := (contents written_disk)
       (3 := set_inode_valid (set_inode_size (set_inode_direct fake_inode 0 0 0) 0 0) 0 0)\<rparr>"


text \<open>
  The blocks that slot \<open>i\<close> of the inode-table block \<open>blk\<close> points to, the indirect block
  read from the device contents \<open>c\<close>: \<open>owned_blocks\<close> for a block already in memory.
\<close>
definition inode_owned :: "(nat \<Rightarrow> block) \<Rightarrow> block \<Rightarrow> nat \<Rightarrow> nat list" where
  "inode_owned c blk i =
     filter (\<lambda>b. b \<noteq> 0) (map (inode_direct blk i) [0..<POINTERS_PER_INODE]) @
     (if inode_indirect blk i = 0 then []
      else inode_indirect blk i #
        filter (\<lambda>b. b \<noteq> 0) (map (pointers (c (inode_indirect blk i))) [0..<POINTERS_PER_BLOCK]))"

text \<open>
  A caller's buffer whose bytes are all 1, and the engine and the device after the
  sequence \<^verbatim>\<open>fs_mount\<close>, \<^verbatim>\<open>fs_create\<close> (inode 0) and \<^verbatim>\<open>fs_write\<close> of 4096 bytes of that
  buffer at offset 4096: block 3 is allocated for the second direct pointer and holds the
  bytes, the size is 8192, and the first direct pointer is still 0.
\<close>
definition payload :: "nat \<Rightarrow> byte" where
  "payload = (\<lambda>_. 1)"

definition hole_fs :: FileSystem where
  "hole_fs = (mounted_fs 1)\<lparr>free_blocks :=
     Some ((replicate 20 True)[0 := False, 1 := False, 2 := False, 3 := False])\<rparr>"

definition hole_disk :: Disk where
  "hole_disk = created_disk\<lparr>reads := 6, writes := 3,
     contents := (contents created_disk)
       (3 := memcpy zero_block 0 payload 0 4096,
        1 := set_inode_size (set_inode_direct (set_inode_valid zero_block 0 1) 0 1 3) 0 8192)\<rparr>"

text \<open>
  A device whose inode 0 has 8192 bytes, the first direct pointer 3 and the second
  direct pointer 99, which is past the end of the device.
\<close>
definition stale_disk :: Disk where
  "stale_disk = (sfs_disk 20)\<lparr>contents := (contents (sfs_disk 20))
     (1 := set_inode_direct (set_inode_direct
             (set_inode_size (set_inode_valid zero_block 0 1) 0 8192) 0 0 3) 0 1 99)\<rparr>"


section \<open>Properties\<close>

subsection \<open>Fields of a block\<close>

lemma get32_zero_block: "get32 zero_block off = 0"
  by (simp add: get32_def zero_block_def)

lemma byte_less: "unat (x :: byte) < 256"
  using unsigned_less[of x, where 'a=nat] by simp

lemma get32_less: "get32 b off < 2 ^ 32"
  using byte_less[of "b off"] byte_less[of "b (off+1)"] byte_less[of "b (off+2)"] byte_less[of "b (off+3)"]
  unfolding get32_def by simp

lemma bytes_of_nat32:
  "v mod 256 + 256 * (v div 256 mod 256) + 65536 * (v div 65536 mod 256)
     + 16777216 * (v div 16777216 mod 256) = v mod 4294967296" for v :: nat
proof -
  have d2: "v div 65536 = v div 256 div 256" using div_mult2_eq[of v 256 256] by simp
  have d3: "v div 16777216 = v div 256 div 256 div 256"
    using div_mult2_eq[of v 65536 256] d2 by simp
  have m1: "v mod 4294967296 = 256 * (v div 256 mod 16777216) + v mod 256"
    using mod_mult2_eq[of v 256 16777216] by simp
  have m2: "v div 256 mod 16777216 = 256 * (v div 256 div 256 mod 65536) + v div 256 mod 256"
    using mod_mult2_eq[of "v div 256" 256 65536] by simp
  have m3: "v div 256 div 256 mod 65536 = 256 * (v div 256 div 256 div 256 mod 256) + v div 256 div 256 mod 256"
    using mod_mult2_eq[of "v div 256 div 256" 256 256] by simp
  show ?thesis unfolding d2 d3 m1 m2 m3 by simp
qed

lemma get32_put32_same: "get32 (put32 b off v) off = v mod 2 ^ 32"
  by (simp add: get32_def put32_def unat_of_nat bytes_of_nat32)

lemma get32_put32_other:
  "off' + 4 \<le> off \<or> off + 4 \<le> off' \<Longrightarrow> get32 (put32 b off v) off' = get32 b off'"
  by (auto simp add: get32_def put32_def)

lemma put32_outside:
  "i < off \<or> off + 4 \<le> i \<Longrightarrow> put32 b off v i = b i"
  by (auto simp add: put32_def)

lemma super_super_image:
  "super (super_image sb) = \<lparr>magic_number = magic_number sb mod 2 ^ 32,
     blocks = SuperBlock.blocks sb mod 2 ^ 32, inode_blocks = inode_blocks sb mod 2 ^ 32,
     inodes = inodes sb mod 2 ^ 32\<rparr>"
  by (simp add: super_def super_image_def get32_put32_same get32_put32_other)

lemma format_loop_keeps:
  "\<exists>d'. format_loop p is d = (True, d') \<and> Disk.blocks d' = Disk.blocks d \<and>
     (\<forall>k. k \<notin> set is \<longrightarrow> contents d' k = contents d k)"
proof (induction "is" arbitrary: d)
  case Nil
  show ?case by simp
next
  case (Cons i "is")
  obtain r d1 where w: "disk_write p d i zero_block = (r, d1)" by (cases "disk_write p d i zero_block")
  have r: "r \<noteq> 0" and b: "Disk.blocks d1 = Disk.blocks d"
    and c: "\<forall>k. k \<noteq> i \<longrightarrow> contents d1 k = contents d k"
    using w by (auto simp add: disk_write_def BLOCK_SIZE_def DISK_FAILURE_def split: if_splits)
  from Cons.IH[of d1] obtain d' where
    "format_loop p is d1 = (True, d')" "Disk.blocks d' = Disk.blocks d1"
    "\<forall>k. k \<notin> set is \<longrightarrow> contents d' k = contents d1 k" by blast
  then show ?case using w r b c by simp
qed

lemma fs_format_keeps_block0:
  assumes "p \<noteq> 0" "disk fs = 0" "free_blocks fs = None"
  shows "\<exists>d'. fs_format fs p d = (True, d') \<and> Disk.blocks d' = Disk.blocks d \<and>
     contents d' 0 = contents d 0"
  using assms format_loop_keeps[of p "[1..<Disk.blocks d]" d]
  by (auto simp add: fs_format_def Let_def)

lemma fs_mount_zero_block0:
  assumes "contents d 0 = zero_block" "disk fs \<noteq> p" "p \<noteq> 0" "0 < Disk.blocks d"
  shows "fs_mount fs p d = Inr (False, fs, d\<lparr>reads := reads d + 1\<rparr>)"
  using assms
  by (simp add: fs_mount_def disk_read_def disk_sanity_check_def BLOCK_SIZE_def super_def
      get32_zero_block MAGIC_NUMBER_def INODES_PER_BLOCK_def)


subsection \<open>Mounting\<close>

lemma bitmap_inode_loop_zero: "bitmap_inode_loop p zero_block is fb d = Continue (fb, d)"
  by (induction "is") (simp_all add: inode_valid_def get32_zero_block)

lemma format_block_20: "format_block (fresh_disk 20) = \<lparr>magic_number = MAGIC_NUMBER, SuperBlock.blocks = 20, inode_blocks = 2, inodes = 256\<rparr>"
  by (simp add: format_block_def fresh_disk_def INODES_PER_BLOCK_def)

lemma bitmap_block_loop_zero:
  assumes "p \<noteq> 0" "\<forall>b\<in>set bs. b < Disk.blocks d \<and> b < length a \<and> contents d b = zero_block"
  shows "bitmap_block_loop p bs (Some a) d =
     Inr (Some (fold (\<lambda>b a. a[b := False]) bs a), d\<lparr>reads := reads d + length bs\<rparr>)"
  using assms
proof (induction bs arbitrary: a d)
  case Nil
  show ?case by simp
next
  case (Cons b bs)
  have "bitmap_block_loop p (b # bs) (Some a) d =
      bitmap_block_loop p bs (Some (a[b := False])) (d\<lparr>reads := reads d + 1\<rparr>)"
    using Cons.prems
    by (simp add: disk_read_def disk_sanity_check_def BLOCK_SIZE_def DISK_FAILURE_def
        bitmap_inode_loop_zero set_free_def)
  also have "\<dots> = Inr (Some (fold (\<lambda>b a. a[b := False]) bs (a[b := False])),
      d\<lparr>reads := reads d + 1, reads := reads (d\<lparr>reads := reads d + 1\<rparr>) + length bs\<rparr>)"
    using Cons.prems by (subst Cons.IH) simp_all
  finally show ?case by simp
qed

lemma upt_1_3: "[Suc 0..<3] = [Suc 0, 2]"
  by code_simp


lemma fs_mount_success:
  assumes "disk fs \<noteq> p" "disk_read p d 0 = (r, Some b, d1)" "r \<noteq> 0"
    and "magic_number (super b) = MAGIC_NUMBER"
    and "(inode_blocks (super b) * INODES_PER_BLOCK) mod 2 ^ 32 \<le> inodes (super b)"
    and "3 \<le> SuperBlock.blocks (super b)"
    and "SuperBlock.blocks (super b) div 10 \<le> inode_blocks (super b)"
    and "fs_initialize_free_block_bitmap (fs\<lparr>meta_data := super b, disk := p\<rparr>) d1 = Inr (fs', d2)"
  shows "fs_mount fs p d = Inr (True, fs', d2)"
  using assms by (simp add: fs_mount_def Let_def)

lemma fs_mount_sfs_disk:
  assumes "p \<noteq> 0" "disk fs \<noteq> p"
  shows "fs_mount fs p ((sfs_disk 20)\<lparr>reads := r\<rparr>) =
    Inr (True, mounted_fs p, (sfs_disk 20)\<lparr>reads := r + 3\<rparr>)"
  unfolding mounted_fs_def
proof (rule fs_mount_success)
  let ?d1 = "(sfs_disk 20)\<lparr>reads := Suc r\<rparr>"
  let ?b = "super_image (format_block (fresh_disk 20))"
  show "disk fs \<noteq> p" by fact
  show "disk_read p ((sfs_disk 20)\<lparr>reads := r\<rparr>) 0 = (int BLOCK_SIZE, Some ?b, ?d1)"
    using assms by (simp add: disk_read_def disk_sanity_check_def sfs_disk_def fresh_disk_def)
  show "int BLOCK_SIZE \<noteq> 0" by (simp add: BLOCK_SIZE_def)
  have sb: "super ?b = format_block (fresh_disk 20)"
    by (simp add: super_super_image format_block_20 MAGIC_NUMBER_def)
  show "magic_number (super ?b) = MAGIC_NUMBER"
    "(inode_blocks (super ?b) * INODES_PER_BLOCK) mod 2 ^ 32 \<le> inodes (super ?b)"
    "3 \<le> SuperBlock.blocks (super ?b)"
    "SuperBlock.blocks (super ?b) div 10 \<le> inode_blocks (super ?b)"
    unfolding sb by (simp_all add: format_block_20 INODES_PER_BLOCK_def)
  have bl: "bitmap_block_loop p [Suc 0, 2] (Some ((replicate 20 True)[0 := False])) ?d1 =
      Inr (Some ((replicate 20 True)[0 := False, 1 := False, 2 := False]), (sfs_disk 20)\<lparr>reads := r + 3\<rparr>)"
    using assms
    by (subst bitmap_block_loop_zero) (simp_all add: sfs_disk_def fresh_disk_def)
  show "fs_initialize_free_block_bitmap (fs\<lparr>meta_data := super ?b, disk := p\<rparr>) ?d1 =
      Inr (\<lparr>disk = p, free_blocks = Some ((replicate 20 True)[0 := False, 1 := False, 2 := False]),
        meta_data = format_block (fresh_disk 20)\<rparr>, (sfs_disk 20)\<lparr>reads := r + 3\<rparr>)"
    unfolding sb
    by (simp add: fs_initialize_free_block_bitmap_def format_block_20 set_free_def upt_1_3 bl
        del: bitmap_block_loop.simps)
qed


lemma sfs_disk_reads: "(sfs_disk 20)\<lparr>reads := 0\<rparr> = sfs_disk 20"
  by (simp add: sfs_disk_def fresh_disk_def)

text \<open>
  C1. \<^verbatim>\<open>fs_format\<close> builds the superblock record and never writes it: on a new device
  of 20 blocks the format succeeds, block 0 is still zero, and the mount that follows
  is refused.
\<close>
theorem fs_format_then_mount_fresh_disk:
  "\<exists>d'. fs_format unmounted_fs 1 (fresh_disk 20) = (True, d') \<and>
     fs_mount unmounted_fs 1 d' = Inr (False, unmounted_fs, d'\<lparr>reads := reads d' + 1\<rparr>)"
proof -
  obtain d' where f: "fs_format unmounted_fs 1 (fresh_disk 20) = (True, d')"
    and b: "Disk.blocks d' = Disk.blocks (fresh_disk 20)"
    and c: "contents d' 0 = contents (fresh_disk 20) 0"
    using fs_format_keeps_block0[of 1 unmounted_fs "fresh_disk 20"]
    by (auto simp add: unmounted_fs_def)
  have "fs_mount unmounted_fs 1 d' = Inr (False, unmounted_fs, d'\<lparr>reads := reads d' + 1\<rparr>)"
    using b c by (intro fs_mount_zero_block0) (simp_all add: fresh_disk_def unmounted_fs_def)
  with f show ?thesis by blast
qed


text \<open>
  C6, as the code has it: \<^verbatim>\<open>fs_mount\<close> refuses the device the engine is mounted on,
  and refuses a readable device whose superblock fails one of the four checks; whenever
  it returns failure, the engine is the one it was given.
\<close>
theorem fs_mount_refusal:
  "(disk fs = p \<longrightarrow> fs_mount fs p d = Inr (False, fs, d)) \<and>
   (disk fs \<noteq> p \<and> p \<noteq> 0 \<and> 0 < Disk.blocks d \<and>
      (magic_number (super (contents d 0)) \<noteq> MAGIC_NUMBER \<or>
       inodes (super (contents d 0)) < (inode_blocks (super (contents d 0)) * INODES_PER_BLOCK) mod 2 ^ 32 \<or>
       SuperBlock.blocks (super (contents d 0)) < 3 \<or>
       inode_blocks (super (contents d 0)) < SuperBlock.blocks (super (contents d 0)) div 10)
     \<longrightarrow> fs_mount fs p d = Inr (False, fs, d\<lparr>reads := reads d + 1\<rparr>)) \<and>
   (\<forall>fs' d'. fs_mount fs p d = Inr (False, fs', d') \<longrightarrow> fs' = fs)"
proof (intro conjI impI allI)
  assume "disk fs = p"
  then show "fs_mount fs p d = Inr (False, fs, d)" by (simp add: fs_mount_def)
next
  assume "disk fs \<noteq> p \<and> p \<noteq> 0 \<and> 0 < Disk.blocks d \<and>
      (magic_number (super (contents d 0)) \<noteq> MAGIC_NUMBER \<or>
       inodes (super (contents d 0)) < (inode_blocks (super (contents d 0)) * INODES_PER_BLOCK) mod 2 ^ 32 \<or>
       SuperBlock.blocks (super (contents d 0)) < 3 \<or>
       inode_blocks (super (contents d 0)) < SuperBlock.blocks (super (contents d 0)) div 10)"
  then show "fs_mount fs p d = Inr (False, fs, d\<lparr>reads := reads d + 1\<rparr>)"
    by (auto simp add: fs_mount_def disk_read_def disk_sanity_check_def BLOCK_SIZE_def Let_def)
next
  fix fs' d'
  assume "fs_mount fs p d = Inr (False, fs', d')"
  then show "fs' = fs"
    by (auto simp add: fs_mount_def Let_def split: prod.splits if_splits option.splits sum.splits)
qed

theorem fs_mount_refusal_witness:
  "disk (mounted_fs 1) = 1 \<and>
   fs_mount (mounted_fs 1) 1 (sfs_disk 20) = Inr (False, mounted_fs 1, sfs_disk 20) \<and>
   fs_mount unmounted_fs 1 (fresh_disk 20) = Inr (False, unmounted_fs, (fresh_disk 20)\<lparr>reads := 1\<rparr>)"
  using fs_mount_refusal [of "mounted_fs 1" 1 "sfs_disk 20"]
    fs_mount_refusal [of unmounted_fs 1 "fresh_disk 20"]
  by (simp add: mounted_fs_def unmounted_fs_def fresh_disk_def super_def get32_zero_block
      MAGIC_NUMBER_def)

text \<open>
  C6 as stated fails: an engine mounted on the device at address 1 mounts the device at
  address 2.
\<close>
theorem fs_mount_other_disk_counterexample:
  "fs_mount unmounted_fs 1 (sfs_disk 20) = Inr (True, mounted_fs 1, (sfs_disk 20)\<lparr>reads := 3\<rparr>) \<and>
   disk (mounted_fs 1) \<noteq> 0 \<and>
   fs_mount (mounted_fs 1) 2 (sfs_disk 20) = Inr (True, mounted_fs 2, (sfs_disk 20)\<lparr>reads := 3\<rparr>)"
  using fs_mount_sfs_disk [of 1 unmounted_fs 0] fs_mount_sfs_disk [of 2 "mounted_fs 1" 0]
  by (simp add: sfs_disk_reads) (simp add: unmounted_fs_def mounted_fs_def)


subsection \<open>fs_create\<close>

lemma upt_split: "i \<le> j \<Longrightarrow> j < k \<Longrightarrow> [i..<k] = [i..<j] @ j # [Suc j..<k]"
proof -
  assume a: "i \<le> j" "j < k"
  then have "[i..<j + (k - j)] = [i..<j] @ [j..<j + (k - j)]" by (intro upt_add_eq_append)
  then show ?thesis using a by (simp add: upt_conv_Cons)
qed

lemma create_inode_loop_full:
  "\<forall>i\<in>set is. inode_valid block i \<noteq> 0 \<Longrightarrow>
   create_inode_loop p d ib block is c = Continue (c + int (length is))"
  by (induction "is" arbitrary: c) simp_all

lemma create_inode_loop_found:
  "\<forall>i\<in>set xs. inode_valid block i \<noteq> 0 \<Longrightarrow> inode_valid block i = 0 \<Longrightarrow>
   create_inode_loop p d ib block (xs @ i # ys) c =
     Return (c + int (length xs), snd (disk_write p d ib (set_inode_valid block i 1)))"
  by (induction xs arbitrary: c) (simp_all split: prod.splits)

lemma disk_read_ok:
  "p \<noteq> 0 \<Longrightarrow> b < Disk.blocks d \<Longrightarrow>
   disk_read p d b = (int BLOCK_SIZE, Some (contents d b), d\<lparr>reads := reads d + 1\<rparr>)"
  by (simp add: disk_read_def disk_sanity_check_def)

lemma disk_write_ok:
  "p \<noteq> 0 \<Longrightarrow> b < Disk.blocks d \<Longrightarrow>
   disk_write p d b x = (int BLOCK_SIZE, d\<lparr>writes := writes d + 1, contents := (contents d)(b := x)\<rparr>)"
  by (simp add: disk_write_def disk_sanity_check_def)

lemma create_block_loop_full:
  assumes "p \<noteq> 0"
    and "\<forall>b\<in>set bs. b < Disk.blocks d \<and> (\<forall>i<INODES_PER_BLOCK. inode_valid (contents d b) i \<noteq> 0)"
  shows "create_block_loop p bs d c = Inr (- 1, d\<lparr>reads := reads d + length bs\<rparr>)"
  using assms(2)
proof (induction bs arbitrary: d c)
  case Nil
  show ?case by simp
next
  case (Cons b bs)
  let ?d1 = "d\<lparr>reads := reads d + 1\<rparr>"
  have rd: "disk_read p d b = (int BLOCK_SIZE, Some (contents d b), ?d1)"
    using assms(1) Cons.prems by (simp add: disk_read_ok)
  have inner: "create_inode_loop p ?d1 b (contents d b) [0..<INODES_PER_BLOCK] c
      = Continue (c + int (length [0..<INODES_PER_BLOCK]))"
    using Cons.prems by (intro create_inode_loop_full) simp
  have "create_block_loop p bs ?d1 (c + int (length [0..<INODES_PER_BLOCK]))
      = Inr (- 1, ?d1\<lparr>reads := reads ?d1 + length bs\<rparr>)"
    using Cons.prems by (intro Cons.IH) simp
  then show ?case
    by (simp only: create_block_loop.simps rd prod.case option.case inner step.case)
       (simp add: add.assoc)
qed

lemma create_block_loop_found:
  assumes "p \<noteq> 0"
    and "\<forall>b\<in>set xs. b < Disk.blocks d \<and> (\<forall>i<INODES_PER_BLOCK. inode_valid (contents d b) i \<noteq> 0)"
    and "b < Disk.blocks d" "j < INODES_PER_BLOCK"
    and "\<forall>i<j. inode_valid (contents d b) i \<noteq> 0" "inode_valid (contents d b) j = 0"
  shows "create_block_loop p (xs @ b # ys) d c =
     Inr (c + int (length xs * INODES_PER_BLOCK + j),
       d\<lparr>reads := reads d + length xs + 1, writes := writes d + 1,
         contents := (contents d)(b := set_inode_valid (contents d b) j 1)\<rparr>)"
  using assms(2-)
proof (induction xs arbitrary: d c)
  case Nil
  let ?d1 = "d\<lparr>reads := reads d + 1\<rparr>"
  have rd: "disk_read p d b = (int BLOCK_SIZE, Some (contents d b), ?d1)"
    using assms(1) Nil.prems by (simp add: disk_read_ok)
  have sp: "[0..<INODES_PER_BLOCK] = [0..<j] @ j # [Suc j..<INODES_PER_BLOCK]"
    using Nil.prems(3) by (intro upt_split) simp_all
  have inner: "create_inode_loop p ?d1 b (contents d b) [0..<INODES_PER_BLOCK] c
      = Return (c + int (length [0..<j]), snd (disk_write p ?d1 b (set_inode_valid (contents d b) j 1)))"
    unfolding sp using Nil.prems by (intro create_inode_loop_found) simp_all
  have wr: "disk_write p ?d1 b (set_inode_valid (contents d b) j 1) =
      (int BLOCK_SIZE, ?d1\<lparr>writes := writes ?d1 + 1,
         contents := (contents ?d1)(b := set_inode_valid (contents d b) j 1)\<rparr>)"
    using assms(1) Nil.prems(2) by (intro disk_write_ok) simp_all
  show ?case
    by (simp only: append_Nil create_block_loop.simps rd prod.case option.case inner step.case wr snd_conv)
       (simp add: fun_upd_def)
next
  case (Cons x xs)
  let ?d1 = "d\<lparr>reads := reads d + 1\<rparr>"
  have rd: "disk_read p d x = (int BLOCK_SIZE, Some (contents d x), ?d1)"
    using assms(1) Cons.prems by (simp add: disk_read_ok)
  have inner: "create_inode_loop p ?d1 x (contents d x) [0..<INODES_PER_BLOCK] c
      = Continue (c + int (length [0..<INODES_PER_BLOCK]))"
    using Cons.prems by (intro create_inode_loop_full) simp
  have "create_block_loop p (xs @ b # ys) ?d1 (c + int (length [0..<INODES_PER_BLOCK])) =
     Inr (c + int (length [0..<INODES_PER_BLOCK]) + int (length xs * INODES_PER_BLOCK + j),
       ?d1\<lparr>reads := reads ?d1 + length xs + 1, writes := writes ?d1 + 1,
         contents := (contents ?d1)(b := set_inode_valid (contents ?d1 b) j 1)\<rparr>)"
    using Cons.prems by (intro Cons.IH) simp_all
  then show ?case
    by (simp only: append_Cons create_block_loop.simps rd prod.case option.case inner step.case)
       (simp add: algebra_simps fun_upd_def)
qed


lemma INODES_PER_BLOCK_pos: "0 < INODES_PER_BLOCK"
  by (simp add: INODES_PER_BLOCK_def)

lemma slot_valid_set:
  "slot_valid (d\<lparr>reads := r, writes := w,
      contents := (contents d)(k div INODES_PER_BLOCK + 1 :=
        set_inode_valid (contents d (k div INODES_PER_BLOCK + 1)) (k mod INODES_PER_BLOCK) 1)\<rparr>) k"
  by (simp add: slot_valid_def inode_valid_def set_inode_valid_def get32_put32_same)

text \<open>
  C8. \<^verbatim>\<open>fs_create\<close> on an engine whose inode-table blocks are all on the device: if
  \<open>k\<close> is the first slot, in the order of inode numbers (block by block, slot by slot),
  that is not valid, the call returns \<open>k\<close> and the device afterwards differs in exactly
  the block of that slot, where the slot is marked valid (one write); if every slot of
  the table is valid, it returns -1 and writes nothing.
\<close>
theorem fs_create_first_invalid_slot:
  assumes "disk fs \<noteq> 0" and "inode_blocks (meta_data fs) < Disk.blocks d"
  shows "(k < inode_blocks (meta_data fs) * INODES_PER_BLOCK \<and> \<not> slot_valid d k \<and>
            (\<forall>j<k. slot_valid d j) \<longrightarrow>
          fs_create fs d = Inr (int k,
            d\<lparr>reads := reads d + k div INODES_PER_BLOCK + 1, writes := writes d + 1,
              contents := (contents d)(k div INODES_PER_BLOCK + 1 :=
                set_inode_valid (contents d (k div INODES_PER_BLOCK + 1)) (k mod INODES_PER_BLOCK) 1)\<rparr>))
       \<and> ((\<forall>j < inode_blocks (meta_data fs) * INODES_PER_BLOCK. slot_valid d j) \<longrightarrow>
          fs_create fs d = Inr (- 1, d\<lparr>reads := reads d + inode_blocks (meta_data fs)\<rparr>))"
proof (intro conjI impI)
  let ?n = "inode_blocks (meta_data fs)"
  let ?I = INODES_PER_BLOCK
  assume "k < ?n * ?I \<and> \<not> slot_valid d k \<and> (\<forall>j<k. slot_valid d j)"
  then have k: "k < ?n * ?I" and inv: "\<not> slot_valid d k" and before: "\<forall>j<k. slot_valid d j"
    by simp_all
  define b where "b = k div ?I + 1"
  define j where "j = k mod ?I"
  have b_le: "b \<le> ?n" unfolding b_def using k INODES_PER_BLOCK_pos
    by (simp add: less_mult_imp_div_less Suc_leI)
  have sp: "[1..<?n + 1] = [1..<b] @ b # [Suc b..<?n + 1]"
    using b_le by (intro upt_split) (simp_all add: b_def)
  have full: "\<forall>x\<in>set [1..<b]. x < Disk.blocks d \<and> (\<forall>i<?I. inode_valid (contents d x) i \<noteq> 0)"
  proof (intro ballI conjI allI impI)
    fix x assume "x \<in> set [1..<b]"
    then have x: "1 \<le> x" "x < b" by auto
    then show "x < Disk.blocks d" using b_le assms(2) by simp
    fix i assume i: "i < ?I"
    have "(x - 1) * ?I + i < k"
    proof -
      have "x - 1 < k div ?I" using x by (auto simp add: b_def)
      then have "(x - 1) * ?I + ?I \<le> (k div ?I) * ?I"
        by (metis Suc_leI mult_Suc mult_le_mono1 add.commute)
      also have "\<dots> \<le> k" by simp
      finally show ?thesis using i by simp
    qed
    then have "slot_valid d ((x - 1) * ?I + i)" using before by simp
    moreover have "((x - 1) * ?I + i) div ?I + 1 = x" "((x - 1) * ?I + i) mod ?I = i"
      using i x by simp_all
    ultimately show "inode_valid (contents d x) i \<noteq> 0" by (simp add: slot_valid_def)
  qed
  have bj: "b < Disk.blocks d" "j < ?I" using b_le assms(2) INODES_PER_BLOCK_pos by (simp_all add: j_def)
  have lowj: "\<forall>i<j. inode_valid (contents d b) i \<noteq> 0"
  proof (intro allI impI)
    fix i assume i: "i < j"
    have kk: "k = (k div ?I) * ?I + j" by (simp add: j_def)
    have "(k div ?I) * ?I + i < k" using i kk by linarith
    then have "slot_valid d ((k div ?I) * ?I + i)" using before by simp
    moreover have "((k div ?I) * ?I + i) div ?I + 1 = b" "((k div ?I) * ?I + i) mod ?I = i"
      using i bj by (simp_all add: b_def)
    ultimately show "inode_valid (contents d b) i \<noteq> 0" by (simp add: slot_valid_def)
  qed
  have atj: "inode_valid (contents d b) j = 0" using inv by (simp add: slot_valid_def b_def j_def)
  have "length [1..<b] = k div ?I" by (simp add: b_def)
  then have len: "length [1..<b] * ?I + j = k" by (simp add: j_def)
  have "create_block_loop (disk fs) ([1..<b] @ b # [Suc b..<?n + 1]) d 0 =
     Inr (0 + int (length [1..<b] * ?I + j),
       d\<lparr>reads := reads d + length [1..<b] + 1, writes := writes d + 1,
         contents := (contents d)(b := set_inode_valid (contents d b) j 1)\<rparr>)"
    using assms(1) full bj lowj atj by (rule create_block_loop_found)
  then show "fs_create fs d = Inr (int k,
            d\<lparr>reads := reads d + k div ?I + 1, writes := writes d + 1,
              contents := (contents d)(k div ?I + 1 :=
                set_inode_valid (contents d (k div ?I + 1)) (k mod ?I) 1)\<rparr>)"
    unfolding fs_create_def sp len by (simp add: b_def j_def)
next
  let ?n = "inode_blocks (meta_data fs)"
  let ?I = INODES_PER_BLOCK
  assume all: "\<forall>j < ?n * ?I. slot_valid d j"
  have full: "\<forall>x\<in>set [1..<?n + 1]. x < Disk.blocks d \<and> (\<forall>i<?I. inode_valid (contents d x) i \<noteq> 0)"
  proof (intro ballI conjI allI impI)
    fix x assume "x \<in> set [1..<?n + 1]"
    then have x: "1 \<le> x" "x \<le> ?n" by auto
    then show "x < Disk.blocks d" using assms(2) by simp
    fix i assume i: "i < ?I"
    have "(x - 1) * ?I + i < ?n * ?I"
    proof -
      have "x - 1 < ?n" using x by auto
      then have "(x - 1) * ?I + ?I \<le> ?n * ?I"
        by (metis Suc_leI mult_Suc mult_le_mono1 add.commute)
      then show ?thesis using i by simp
    qed
    then have "slot_valid d ((x - 1) * ?I + i)" using all by simp
    moreover have "((x - 1) * ?I + i) div ?I + 1 = x" "((x - 1) * ?I + i) mod ?I = i"
      using i x by simp_all
    ultimately show "inode_valid (contents d x) i \<noteq> 0" by (simp add: slot_valid_def)
  qed
  show "fs_create fs d = Inr (- 1, d\<lparr>reads := reads d + ?n\<rparr>)"
    unfolding fs_create_def using create_block_loop_full[OF assms(1) full, of 0] by simp
qed


lemma slot_valid_full_disk: "slot_valid full_disk j"
  by (simp add: slot_valid_def full_disk_def inode_valid_def get32_def)

lemma slot_valid_sfs_disk: "\<not> slot_valid (sfs_disk 20) 0"
  by (simp add: slot_valid_def sfs_disk_def INODES_PER_BLOCK_def inode_valid_def get32_zero_block)

theorem fs_create_first_invalid_slot_witness:
  "fs_create (mounted_fs 1) (sfs_disk 20) = Inr (0, (sfs_disk 20)\<lparr>reads := 1, writes := 1,
      contents := (contents (sfs_disk 20))(1 := set_inode_valid zero_block 0 1)\<rparr>) \<and>
   fs_create (mounted_fs 1) full_disk = Inr (- 1, full_disk\<lparr>reads := 2\<rparr>)"
proof
  have m: "disk (mounted_fs 1) \<noteq> 0" "inode_blocks (meta_data (mounted_fs 1)) = 2"
    by (simp_all add: mounted_fs_def format_block_20)
  have "fs_create (mounted_fs 1) (sfs_disk 20) = Inr (int 0,
            (sfs_disk 20)\<lparr>reads := reads (sfs_disk 20) + 0 div INODES_PER_BLOCK + 1, writes := writes (sfs_disk 20) + 1,
              contents := (contents (sfs_disk 20))(0 div INODES_PER_BLOCK + 1 :=
                set_inode_valid (contents (sfs_disk 20) (0 div INODES_PER_BLOCK + 1)) (0 mod INODES_PER_BLOCK) 1)\<rparr>)"
    using fs_create_first_invalid_slot [of "mounted_fs 1" "sfs_disk 20" 0] m slot_valid_sfs_disk
    by (simp add: sfs_disk_def fresh_disk_def INODES_PER_BLOCK_def)
  then show "fs_create (mounted_fs 1) (sfs_disk 20) = Inr (0, (sfs_disk 20)\<lparr>reads := 1, writes := 1,
      contents := (contents (sfs_disk 20))(1 := set_inode_valid zero_block 0 1)\<rparr>)"
    by (simp add: sfs_disk_def fresh_disk_def)
  show "fs_create (mounted_fs 1) full_disk = Inr (- 1, full_disk\<lparr>reads := 2\<rparr>)"
    using fs_create_first_invalid_slot [of "mounted_fs 1" full_disk 0] m slot_valid_full_disk
    by (simp add: full_disk_def)
qed



subsection \<open>fs_remove and fs_stat\<close>

lemma inode_direct_set_direct:
  "inode_direct (set_inode_direct blk i k v) i k' =
     (if k' = k then v mod 2 ^ 32 else inode_direct blk i k')"
proof (cases "k' = k")
  case True
  then show ?thesis by (simp add: inode_direct_def set_inode_direct_def get32_put32_same)
next
  case False
  then have "INODE_SIZE * i + 8 + 4 * k' + 4 \<le> INODE_SIZE * i + 8 + 4 * k \<or>
      INODE_SIZE * i + 8 + 4 * k + 4 \<le> INODE_SIZE * i + 8 + 4 * k'" by arith
  then show ?thesis using False
    by (simp add: inode_direct_def set_inode_direct_def get32_put32_other)
qed

lemma inode_indirect_set_direct:
  "k < POINTERS_PER_INODE \<Longrightarrow> inode_indirect (set_inode_direct blk i k v) i = inode_indirect blk i"
  by (simp add: inode_indirect_def set_inode_direct_def get32_put32_other)

lemma pointers_set_pointers:
  "pointers (set_pointers b k v) k' = (if k' = k then v mod 2 ^ 32 else pointers b k')"
proof (cases "k' = k")
  case True
  then show ?thesis by (simp add: pointers_def set_pointers_def get32_put32_same)
next
  case False
  then have "4 * k' + 4 \<le> 4 * k \<or> 4 * k + 4 \<le> 4 * k'" by arith
  then show ?thesis using False
    by (simp add: pointers_def set_pointers_def get32_put32_other)
qed

lemma inode_valid_set_valid: "inode_valid (set_inode_valid b i v) i = v mod 2 ^ 32"
  by (simp add: inode_valid_def set_inode_valid_def get32_put32_same)

lemma remove_dp_loop_ok:
  assumes "distinct dps" "\<forall>k\<in>set dps. k < POINTERS_PER_INODE"
    and "\<forall>k\<in>set dps. inode_direct blk i k \<noteq> 0 \<longrightarrow> inode_direct blk i k < length a"
  shows "\<exists>blk' a'. remove_dp_loop i dps blk (Some a) = Inr (blk', Some a') \<and>
     length a' = length a \<and> (\<forall>b<length a. a ! b \<longrightarrow> a' ! b) \<and>
     (\<forall>k\<in>set dps. inode_direct blk i k \<noteq> 0 \<longrightarrow> a' ! inode_direct blk i k) \<and>
     inode_indirect blk' i = inode_indirect blk i"
  using assms
proof (induction dps arbitrary: blk a)
  case Nil
  show ?case by simp
next
  case (Cons dp dps)
  show ?case
  proof (cases "inode_direct blk i dp = 0")
    case True
    from Cons.IH[of blk a] Cons.prems obtain blk' a' where
      r: "remove_dp_loop i dps blk (Some a) = Inr (blk', Some a')" "length a' = length a"
        "\<forall>b<length a. a ! b \<longrightarrow> a' ! b"
        "\<forall>k\<in>set dps. inode_direct blk i k \<noteq> 0 \<longrightarrow> a' ! inode_direct blk i k"
        "inode_indirect blk' i = inode_indirect blk i"
      by auto
    then show ?thesis using True by auto
  next
    case False
    let ?ptr = "inode_direct blk i dp"
    let ?blk1 = "set_inode_direct blk i dp 0"
    let ?a1 = "a[?ptr := True]"
    have ptr: "?ptr < length a" using False Cons.prems by simp
    have same: "\<forall>k\<in>set dps. inode_direct ?blk1 i k = inode_direct blk i k"
      using Cons.prems(1) by (auto simp add: inode_direct_set_direct)
    have "\<forall>k\<in>set dps. inode_direct ?blk1 i k \<noteq> 0 \<longrightarrow> inode_direct ?blk1 i k < length ?a1"
      using same Cons.prems(3) by simp
    with Cons.IH[of ?blk1 ?a1] Cons.prems obtain blk' a' where
      r: "remove_dp_loop i dps ?blk1 (Some ?a1) = Inr (blk', Some a')" "length a' = length ?a1"
        "\<forall>b<length ?a1. ?a1 ! b \<longrightarrow> a' ! b"
        "\<forall>k\<in>set dps. inode_direct ?blk1 i k \<noteq> 0 \<longrightarrow> a' ! inode_direct ?blk1 i k"
        "inode_indirect blk' i = inode_indirect ?blk1 i"
      by auto
    have "remove_dp_loop i (dp # dps) blk (Some a) = Inr (blk', Some a')"
      using False ptr r(1) by (simp add: set_free_def)
    moreover have "\<forall>b<length a. a ! b \<longrightarrow> a' ! b"
    proof (intro allI impI)
      fix b assume b: "b < length a" "a ! b"
      then have "?a1 ! b" by (cases "b = ?ptr") simp_all
      then show "a' ! b" using r(3) b(1) by simp
    qed
    moreover have "a' ! ?ptr" using r(3) ptr by simp
    moreover have "inode_indirect blk' i = inode_indirect blk i"
      using r(5) Cons.prems(2) by (simp add: inode_indirect_set_direct)
    ultimately show ?thesis using r(2) r(4) same by auto
  qed
qed

lemma remove_ip_loop_ok:
  assumes "distinct ips"
    and "\<forall>k\<in>set ips. pointers ind k \<noteq> 0 \<longrightarrow> pointers ind k < length a"
  shows "\<exists>ind' a'. remove_ip_loop ips ind (Some a) = Inr (ind', Some a') \<and>
     length a' = length a \<and> (\<forall>b<length a. a ! b \<longrightarrow> a' ! b) \<and>
     (\<forall>k\<in>set ips. pointers ind k \<noteq> 0 \<longrightarrow> a' ! pointers ind k)"
  using assms
proof (induction ips arbitrary: ind a)
  case Nil
  show ?case by simp
next
  case (Cons ip ips)
  show ?case
  proof (cases "pointers ind ip = 0")
    case True
    from Cons.IH[of ind a] Cons.prems obtain ind' a' where
      r: "remove_ip_loop ips ind (Some a) = Inr (ind', Some a')" "length a' = length a"
        "\<forall>b<length a. a ! b \<longrightarrow> a' ! b"
        "\<forall>k\<in>set ips. pointers ind k \<noteq> 0 \<longrightarrow> a' ! pointers ind k"
      by auto
    then show ?thesis using True by auto
  next
    case False
    let ?ptr = "pointers ind ip"
    let ?ind1 = "set_pointers ind ip 0"
    let ?a1 = "a[?ptr := True]"
    have ptr: "?ptr < length a" using False Cons.prems by simp
    have same: "\<forall>k\<in>set ips. pointers ?ind1 k = pointers ind k"
      using Cons.prems(1) by (auto simp add: pointers_set_pointers)
    have "\<forall>k\<in>set ips. pointers ?ind1 k \<noteq> 0 \<longrightarrow> pointers ?ind1 k < length ?a1"
      using same Cons.prems(2) by simp
    with Cons.IH[of ?ind1 ?a1] Cons.prems obtain ind' a' where
      r: "remove_ip_loop ips ?ind1 (Some ?a1) = Inr (ind', Some a')" "length a' = length ?a1"
        "\<forall>b<length ?a1. ?a1 ! b \<longrightarrow> a' ! b"
        "\<forall>k\<in>set ips. pointers ?ind1 k \<noteq> 0 \<longrightarrow> a' ! pointers ?ind1 k"
      by auto
    have "remove_ip_loop (ip # ips) ind (Some a) = Inr (ind', Some a')"
      using False ptr r(1) by (simp add: set_free_def)
    moreover have "\<forall>b<length a. a ! b \<longrightarrow> a' ! b"
    proof (intro allI impI)
      fix b assume b: "b < length a" "a ! b"
      then have "?a1 ! b" by (cases "b = ?ptr") simp_all
      then show "a' ! b" using r(3) b(1) by simp
    qed
    moreover have "a' ! ?ptr" using r(3) ptr by simp
    ultimately show ?thesis using r(2) r(4) same by auto
  qed
qed


lemma remove_indirect_ok:
  assumes "p \<noteq> 0" "inode_indirect blk i \<noteq> 0" "inode_indirect blk i < Disk.blocks d"
    and "inode_indirect blk i < length a"
    and "\<forall>k<POINTERS_PER_BLOCK. pointers (contents d (inode_indirect blk i)) k \<noteq> 0 \<longrightarrow>
           pointers (contents d (inode_indirect blk i)) k < length a"
  shows "\<exists>blk' a' d'. remove_indirect p i blk (Some a) d = Inr (blk', Some a', d') \<and>
     length a' = length a \<and> (\<forall>b<length a. a ! b \<longrightarrow> a' ! b) \<and> a' ! inode_indirect blk i \<and>
     (\<forall>k<POINTERS_PER_BLOCK. pointers (contents d (inode_indirect blk i)) k \<noteq> 0 \<longrightarrow>
           a' ! pointers (contents d (inode_indirect blk i)) k) \<and>
     Disk.blocks d' = Disk.blocks d"
proof -
  let ?ind = "contents d (inode_indirect blk i)"
  let ?d1 = "d\<lparr>reads := reads d + 1\<rparr>"
  have rd: "disk_read p d (inode_indirect blk i) = (int BLOCK_SIZE, Some ?ind, ?d1)"
    using assms by (simp add: disk_read_ok)
  from remove_ip_loop_ok[of "[0..<POINTERS_PER_BLOCK]" ?ind a] assms(5)
  obtain ind' a1 where
    l: "remove_ip_loop [0..<POINTERS_PER_BLOCK] ?ind (Some a) = Inr (ind', Some a1)"
      "length a1 = length a" "\<forall>b<length a. a ! b \<longrightarrow> a1 ! b"
      "\<forall>k<POINTERS_PER_BLOCK. pointers ?ind k \<noteq> 0 \<longrightarrow> a1 ! pointers ?ind k"
    by auto
  let ?a2 = "a1[inode_indirect blk i := True]"
  have sf: "set_free (Some a1) (inode_indirect blk i) True = Inr (Some ?a2)"
    using assms(4) l(2) by (simp add: set_free_def)
  have wr: "disk_write p ?d1 (inode_indirect blk i) ind' =
      (int BLOCK_SIZE, ?d1\<lparr>writes := writes ?d1 + 1,
         contents := (contents ?d1)(inode_indirect blk i := ind')\<rparr>)"
    using assms by (intro disk_write_ok) simp_all
  have "remove_indirect p i blk (Some a) d = Inr (set_inode_indirect blk i 0, Some ?a2,
      ?d1\<lparr>writes := writes ?d1 + 1, contents := (contents ?d1)(inode_indirect blk i := ind')\<rparr>)"
    unfolding remove_indirect_def using assms(2)
    by (simp only: simp_thms if_True rd prod.case option.case l(1) sum.case sf wr)
  moreover have "\<forall>b<length a. a ! b \<longrightarrow> ?a2 ! b"
  proof (intro allI impI)
    fix b assume b: "b < length a" "a ! b"
    then have "a1 ! b" using l(3) by simp
    then show "?a2 ! b" using assms(4) l(2) by (cases "b = inode_indirect blk i") simp_all
  qed
  moreover have "?a2 ! inode_indirect blk i" using assms(4) l(2) by simp
  moreover have "\<forall>k<POINTERS_PER_BLOCK. pointers ?ind k \<noteq> 0 \<longrightarrow> ?a2 ! pointers ?ind k"
  proof (intro allI impI)
    fix k assume k: "k < POINTERS_PER_BLOCK" "pointers ?ind k \<noteq> 0"
    then have "a1 ! pointers ?ind k" "pointers ?ind k < length a1" using l(4) l(2) assms(5) by simp_all
    then show "?a2 ! pointers ?ind k" by (cases "pointers ?ind k = inode_indirect blk i") simp_all
  qed
  ultimately show ?thesis using l(2) by simp
qed

lemma remove_indirect_none:
  "inode_indirect blk i = 0 \<Longrightarrow> remove_indirect p i blk fb d = Inr (blk, fb, d)"
  by (simp add: remove_indirect_def)

lemma set_owned_blocks:
  "set (owned_blocks d n) =
    {b. b \<noteq> 0 \<and> (\<exists>k<POINTERS_PER_INODE.
        b = inode_direct (contents d (n div INODES_PER_BLOCK + 1)) (n mod INODES_PER_BLOCK) k)} \<union>
    (if inode_indirect (contents d (n div INODES_PER_BLOCK + 1)) (n mod INODES_PER_BLOCK) = 0 then {}
     else insert (inode_indirect (contents d (n div INODES_PER_BLOCK + 1)) (n mod INODES_PER_BLOCK))
       {b. b \<noteq> 0 \<and> (\<exists>k<POINTERS_PER_BLOCK. b = pointers (contents d
          (inode_indirect (contents d (n div INODES_PER_BLOCK + 1)) (n mod INODES_PER_BLOCK))) k)})"
  by (auto simp add: owned_blocks_def Let_def)

text \<open>
  C7. \<^verbatim>\<open>fs_remove\<close> on an inode whose block is on the device and whose pointers index the
  bitmap (and whose indirect block is on the device): if the slot is valid the call
  succeeds, \<^verbatim>\<open>fs_stat\<close> on the result returns -1, and every block the inode owned is
  marked available; if the slot is not valid the call fails and changes nothing but the
  read counter.
\<close>
theorem fs_remove_releases:
  assumes "disk fs \<noteq> 0" and "n div INODES_PER_BLOCK + 1 < Disk.blocks d"
    and "free_blocks fs = Some a"
    and "\<forall>b\<in>set (owned_blocks d n). b < length a"
    and "inode_indirect (contents d (n div INODES_PER_BLOCK + 1)) (n mod INODES_PER_BLOCK) < Disk.blocks d"
  shows "(slot_valid d n \<longrightarrow>
            (\<exists>a' d'. fs_remove fs d n = Inr (True, fs\<lparr>free_blocks := Some a'\<rparr>, d') \<and>
               fs_stat (fs\<lparr>free_blocks := Some a'\<rparr>) d' n = Inr (- 1, d'\<lparr>reads := reads d' + 1\<rparr>) \<and>
               length a' = length a \<and> (\<forall>b\<in>set (owned_blocks d n). a' ! b))) \<and>
         (\<not> slot_valid d n \<longrightarrow> fs_remove fs d n = Inr (False, fs, d\<lparr>reads := reads d + 1\<rparr>))"
proof (intro conjI impI)
  let ?bn = "n div INODES_PER_BLOCK + 1"
  let ?i = "n mod INODES_PER_BLOCK"
  let ?blk = "contents d ?bn"
  let ?d1 = "d\<lparr>reads := reads d + 1\<rparr>"
  have rd: "disk_read (disk fs) d ?bn = (int BLOCK_SIZE, Some ?blk, ?d1)"
    using assms by (simp add: disk_read_ok)
  {
    assume "\<not> slot_valid d n"
    then have iv: "inode_valid ?blk ?i = 0" by (simp add: slot_valid_def)
    show "fs_remove fs d n = Inr (False, fs, ?d1)"
      unfolding fs_remove_def Let_def
      by (simp only: rd prod.case option.case iv simp_thms if_True)
  }
  assume "slot_valid d n"
  then have v: "inode_valid ?blk ?i \<noteq> 0" by (simp add: slot_valid_def)
  have own: "\<forall>k<POINTERS_PER_INODE. inode_direct ?blk ?i k \<noteq> 0 \<longrightarrow> inode_direct ?blk ?i k < length a"
    using assms(4) by (auto simp add: set_owned_blocks)
  from remove_dp_loop_ok[of "[0..<POINTERS_PER_INODE]" ?blk ?i a] own
  obtain blk1 a1 where
    l: "remove_dp_loop ?i [0..<POINTERS_PER_INODE] ?blk (Some a) = Inr (blk1, Some a1)"
      "length a1 = length a" "\<forall>b<length a. a ! b \<longrightarrow> a1 ! b"
      "\<forall>k<POINTERS_PER_INODE. inode_direct ?blk ?i k \<noteq> 0 \<longrightarrow> a1 ! inode_direct ?blk ?i k"
      "inode_indirect blk1 ?i = inode_indirect ?blk ?i"
    by auto
  have "\<exists>blk2 a2 d2. remove_indirect (disk fs) ?i blk1 (Some a1) ?d1 = Inr (blk2, Some a2, d2) \<and>
      length a2 = length a \<and> (\<forall>b\<in>set (owned_blocks d n). a2 ! b) \<and> Disk.blocks d2 = Disk.blocks d"
  proof (cases "inode_indirect ?blk ?i = 0")
    case True
    then have "remove_indirect (disk fs) ?i blk1 (Some a1) ?d1 = Inr (blk1, Some a1, ?d1)"
      using l(5) by (simp add: remove_indirect_none)
    moreover have "\<forall>b\<in>set (owned_blocks d n). a1 ! b"
      using True l(4) by (auto simp add: set_owned_blocks)
    ultimately show ?thesis using l(2) by simp
  next
    case False
    let ?ip = "inode_indirect ?blk ?i"
    have ptrs: "\<forall>k<POINTERS_PER_BLOCK. pointers (contents d ?ip) k \<noteq> 0 \<longrightarrow>
        pointers (contents d ?ip) k < length a"
      using assms(4) False by (auto simp add: set_owned_blocks)
    have ip: "?ip < length a" using assms(4) False by (simp add: set_owned_blocks)
    from remove_indirect_ok[of "disk fs" blk1 ?i ?d1 a1] assms(1,5) False l(2,5) ip ptrs
    obtain blk2 a2 d2 where
      r: "remove_indirect (disk fs) ?i blk1 (Some a1) ?d1 = Inr (blk2, Some a2, d2)"
        "length a2 = length a1" "\<forall>b<length a1. a1 ! b \<longrightarrow> a2 ! b" "a2 ! ?ip"
        "\<forall>k<POINTERS_PER_BLOCK. pointers (contents d ?ip) k \<noteq> 0 \<longrightarrow> a2 ! pointers (contents d ?ip) k"
        "Disk.blocks d2 = Disk.blocks ?d1"
      by auto
    have "\<forall>b\<in>set (owned_blocks d n). a2 ! b"
      using False l(2) l(4) r(3) r(4) r(5) own by (auto simp add: set_owned_blocks)
    then show ?thesis using r(1) r(2) r(6) l(2) by simp
  qed
  then obtain blk2 a2 d2 where
    r: "remove_indirect (disk fs) ?i blk1 (Some a1) ?d1 = Inr (blk2, Some a2, d2)"
      "length a2 = length a" "\<forall>b\<in>set (owned_blocks d n). a2 ! b" "Disk.blocks d2 = Disk.blocks d"
    by blast
  let ?final = "set_inode_valid (set_inode_size blk2 ?i 0) ?i 0"
  let ?d3 = "d2\<lparr>writes := writes d2 + 1, contents := (contents d2)(?bn := ?final)\<rparr>"
  have wr: "disk_write (disk fs) d2 ?bn ?final = (int BLOCK_SIZE, ?d3)"
    using assms(1,2) r(4) by (intro disk_write_ok) simp_all
  have rem: "fs_remove fs d n = Inr (True, fs\<lparr>free_blocks := Some a2\<rparr>, ?d3)"
    unfolding fs_remove_def Let_def using v
    by (simp only: rd prod.case option.case simp_thms if_False assms(3) l(1) sum.case r(1) wr)
  have rd3: "disk_read (disk (fs\<lparr>free_blocks := Some a2\<rparr>)) ?d3 ?bn =
      (int BLOCK_SIZE, Some ?final, ?d3\<lparr>reads := reads ?d3 + 1\<rparr>)"
    using assms(1,2) r(4) by (simp add: disk_read_ok)
  have "fs_stat (fs\<lparr>free_blocks := Some a2\<rparr>) ?d3 n = Inr (- 1, ?d3\<lparr>reads := reads ?d3 + 1\<rparr>)"
    unfolding fs_stat_def Let_def
    by (simp only: rd3 prod.case option.case) (simp add: inode_valid_set_valid)
  with rem r(2,3) show "\<exists>a' d'. fs_remove fs d n = Inr (True, fs\<lparr>free_blocks := Some a'\<rparr>, d') \<and>
               fs_stat (fs\<lparr>free_blocks := Some a'\<rparr>) d' n = Inr (- 1, d'\<lparr>reads := reads d' + 1\<rparr>) \<and>
               length a' = length a \<and> (\<forall>b\<in>set (owned_blocks d n). a' ! b)"
    by blast
qed


lemmas block_field_defs = inode_valid_def inode_size_def inode_direct_def inode_indirect_def
  set_inode_valid_def set_inode_size_def set_inode_direct_def set_inode_indirect_def
  pointers_def set_pointers_def INODE_SIZE_def POINTERS_PER_INODE_def

lemmas get32_simps = get32_put32_same get32_put32_other get32_zero_block

lemma file_inode_fields:
  "inode_valid file_inode_block 0 = 1" "inode_size file_inode_block 0 = 24576"
  "inode_direct file_inode_block 0 0 = 3" "inode_direct file_inode_block 0 (Suc 0) = 4"
  "inode_direct file_inode_block 0 2 = 5" "inode_direct file_inode_block 0 3 = 6"
  "inode_direct file_inode_block 0 4 = 7" "inode_indirect file_inode_block 0 = 8"
  by (simp_all add: file_inode_block_def block_field_defs get32_simps)

lemma upt_0_5: "[0..<5] = [0, 1, 2, 3, 4]"
  by code_simp

lemma POINTERS_PER_BLOCK_pos: "0 < POINTERS_PER_BLOCK"
  by (simp add: POINTERS_PER_BLOCK_def)

lemma pointers_zero_block: "pointers zero_block k = 0"
  by (simp add: pointers_def get32_zero_block)

lemma pointers_single:
  "v \<noteq> 0 \<Longrightarrow> v < 2 ^ 32 \<Longrightarrow>
   filter (\<lambda>b. b \<noteq> 0) (map (pointers (set_pointers zero_block 0 v)) [0..<POINTERS_PER_BLOCK]) = [v]"
proof -
  assume v: "v \<noteq> 0" "v < 2 ^ 32"
  have sp: "[0..<POINTERS_PER_BLOCK] = 0 # [1..<POINTERS_PER_BLOCK]"
    using POINTERS_PER_BLOCK_pos by (simp add: upt_conv_Cons)
  have "\<forall>k\<in>set [1..<POINTERS_PER_BLOCK]. pointers (set_pointers zero_block 0 v) k = 0"
    by (simp add: pointers_set_pointers pointers_zero_block)
  then have "filter (\<lambda>b. b \<noteq> 0) (map (pointers (set_pointers zero_block 0 v)) [1..<POINTERS_PER_BLOCK]) = []"
    by (simp add: filter_empty_conv)
  then show ?thesis unfolding sp using v by (simp add: pointers_set_pointers)
qed

lemma owned_blocks_file_disk: "owned_blocks file_disk 0 = [3, 4, 5, 6, 7, 8, 9]"
proof -
  have c: "0 div INODES_PER_BLOCK + 1 = 1" "0 mod INODES_PER_BLOCK = 0"
    "contents file_disk 1 = file_inode_block"
    "contents file_disk 8 = set_pointers zero_block 0 9"
    by (simp_all add: file_disk_def)
  have dm: "map (inode_direct file_inode_block 0) [0..<POINTERS_PER_INODE] = [3, 4, 5, 6, 7]"
    by (simp add: POINTERS_PER_INODE_def upt_0_5 file_inode_fields)
  have ps: "filter (\<lambda>b. b \<noteq> 0) (map (pointers (set_pointers zero_block 0 9)) [0..<POINTERS_PER_BLOCK]) = [9]"
    by (rule pointers_single) simp_all
  have "owned_blocks file_disk 0 =
      filter (\<lambda>b. b \<noteq> 0) [3, 4, 5, 6, 7] @ (if (8::nat) = 0 then [] else 8 # [9])"
    unfolding owned_blocks_def Let_def c dm file_inode_fields ps ..
  then show ?thesis by simp
qed

lemma slot_valid_file_disk: "slot_valid file_disk 0" "\<not> slot_valid file_disk 1"
  by (simp_all add: slot_valid_def file_disk_def INODES_PER_BLOCK_def file_inode_fields)
     (simp add: file_inode_block_def block_field_defs get32_simps)


lemma file_inode_slot1:
  "inode_valid file_inode_block (Suc 0) = 0" "inode_direct file_inode_block (Suc 0) k = 0"
  "inode_indirect file_inode_block (Suc 0) = 0"
  by (simp_all add: file_inode_block_def block_field_defs get32_simps)

lemma owned_blocks_file_disk_1: "owned_blocks file_disk 1 = []"
proof -
  have c: "1 div INODES_PER_BLOCK + 1 = 1" "1 mod INODES_PER_BLOCK = Suc 0"
    "contents file_disk 1 = file_inode_block"
    by (simp_all add: file_disk_def INODES_PER_BLOCK_def)
  show ?thesis
    unfolding owned_blocks_def Let_def c by (simp add: file_inode_slot1 filter_empty_conv)
qed

theorem fs_remove_releases_witness:
  "slot_valid file_disk 0 \<and>
   (\<exists>a' d'. fs_remove file_fs file_disk 0 = Inr (True, file_fs\<lparr>free_blocks := Some a'\<rparr>, d') \<and>
      fs_stat (file_fs\<lparr>free_blocks := Some a'\<rparr>) d' 0 = Inr (- 1, d'\<lparr>reads := reads d' + 1\<rparr>) \<and>
      length a' = 20 \<and> (\<forall>b\<in>set [3, 4, 5, 6, 7, 8, 9]. a' ! b)) \<and>
   \<not> slot_valid file_disk 1 \<and>
   fs_remove file_fs file_disk 1 = Inr (False, file_fs, file_disk\<lparr>reads := 1\<rparr>)"
proof -
  have fs: "disk file_fs \<noteq> 0" "free_blocks file_fs = Some (replicate 10 False @ replicate 10 True)"
    by (simp_all add: file_fs_def mounted_fs_def)
  have b: "Disk.blocks file_disk = 20" "reads file_disk = 0"
    by (simp_all add: file_disk_def sfs_disk_def fresh_disk_def)
  have c: "contents file_disk (Suc 0) = file_inode_block" by (simp add: file_disk_def)
  have h0: "0 div INODES_PER_BLOCK + 1 < Disk.blocks file_disk"
    "\<forall>b\<in>set (owned_blocks file_disk 0). b < length (replicate 10 False @ replicate 10 True)"
    "inode_indirect (contents file_disk (0 div INODES_PER_BLOCK + 1)) (0 mod INODES_PER_BLOCK) < Disk.blocks file_disk"
    by (simp_all add: b owned_blocks_file_disk c file_inode_fields)
  have h1: "1 div INODES_PER_BLOCK + 1 < Disk.blocks file_disk"
    "inode_indirect (contents file_disk (1 div INODES_PER_BLOCK + 1)) (1 mod INODES_PER_BLOCK) < Disk.blocks file_disk"
    by (simp_all add: b c file_inode_slot1 INODES_PER_BLOCK_def)
  have h1': "\<forall>b\<in>set (owned_blocks file_disk 1). b < length (replicate 10 False @ replicate 10 True)"
    unfolding owned_blocks_file_disk_1 by simp
  show ?thesis
    using fs_remove_releases [OF fs(1) h0(1) fs(2) h0(2) h0(3)]
      fs_remove_releases [OF fs(1) h1(1) fs(2) h1' h1(2)]
      slot_valid_file_disk
    by (simp add: owned_blocks_file_disk b)
qed



subsection \<open>fs_read\<close>

declare read_loop.simps [simp del]
declare write_loop.simps [simp del]

lemma sub64_le: "b \<le> a \<Longrightarrow> a < 2 ^ 64 \<Longrightarrow> sub64 a b = a - b"
proof -
  assume a: "b \<le> a" "a < 2 ^ 64"
  then have "2 ^ 64 + a mod 2 ^ 64 - b mod 2 ^ 64 = (a - b) + (2 ^ 64 :: nat)" by simp
  then have "sub64 a b = (a - b) mod 2 ^ 64" unfolding sub64_def by (simp only: mod_add_self2)
  then show ?thesis using a by simp
qed

lemma sub64_less: "sub64 a b < 2 ^ 64"
  by (simp add: sub64_def)

lemma add64_small: "a + b < 2 ^ 64 \<Longrightarrow> add64 a b = a + b"
  by (simp add: add64_def)

lemma read_step_Continue:
  assumes "read_step p blk i len (k, nread, doff, ncopy, data, d) = Continue s'"
  shows "\<exists>data' d'. s' = (k + 1, nread + ncopy, 0,
      (if sub64 len (nread + ncopy) > BLOCK_SIZE then BLOCK_SIZE else sub64 len (nread + ncopy)),
      data', d')"
  using assms
  by (cases "read_fetch p blk i k d")
     (auto simp add: read_step_def Let_def split: if_splits)

lemma read_step_Return:
  assumes "read_step p blk i len (k, nread, doff, ncopy, data, d) = Return (r, data', d')"
  shows "r = - 1"
proof (cases "read_fetch p blk i k d")
  case (Fault e)
  with assms show ?thesis by (simp add: read_step_def)
next
  case (Return res)
  then have "fst res = - 1"
    by (auto simp add: read_fetch_def Let_def split: if_splits prod.splits)
  with assms Return show ?thesis by (cases res) (simp add: read_step_def)
next
  case (Continue x)
  with assms show ?thesis by (cases x) (simp add: read_step_def Let_def split: if_splits)
qed

lemma read_loop_count_aux:
  "read_loop p blk i len s = Inr (r, data', d') \<Longrightarrow> len < 2 ^ 64 \<Longrightarrow>
   fst (snd s) + fst (snd (snd (snd s))) \<le> len \<Longrightarrow> r = - 1 \<or> r = int len"
proof (induction p blk i len s rule: read_loop.induct)
  case (1 p blk i len k nread doff ncopy data d)
  have le: "nread + ncopy \<le> len" using "1.prems"(3) by simp
  show ?case
  proof (cases "nread < len")
    case False
    with "1.prems"(1) le show ?thesis by (simp add: read_loop.simps)
  next
    case True
    show ?thesis
    proof (cases "read_step p blk i len (k, nread, doff, ncopy, data, d)")
      case (Fault e)
      with True "1.prems"(1) show ?thesis by (simp add: read_loop.simps)
    next
      case (Return res)
      with True "1.prems"(1) have "res = (r, data', d')" by (simp add: read_loop.simps)
      with Return read_step_Return show ?thesis by blast
    next
      case (Continue s')
      from read_step_Continue[OF Continue] obtain data1 d1 where
        s': "s' = (k + 1, nread + ncopy, 0,
          (if sub64 len (nread + ncopy) > BLOCK_SIZE then BLOCK_SIZE else sub64 len (nread + ncopy)),
          data1, d1)" by blast
      have sub: "sub64 len (nread + ncopy) = len - (nread + ncopy)"
        using le "1.prems"(2) by (simp add: sub64_le)
      have inv: "fst (snd s') + fst (snd (snd (snd s'))) \<le> len"
        using le unfolding s' sub by simp arith
      have "read_loop p blk i len s' = Inr (r, data', d')"
        using True Continue "1.prems"(1) by (simp add: read_loop.simps)
      then show ?thesis
        using "1.IH" True Continue "1.prems"(2) inv by blast
    qed
  qed
qed

lemma read_loop_count:
  assumes "nread + ncopy \<le> len" "len < 2 ^ 64"
    and "read_loop p blk i len (k, nread, doff, ncopy, data, d) = Inr (r, data', d')"
  shows "r = - 1 \<or> r = int len"
  using read_loop_count_aux[OF assms(3) assms(2)] assms(1) by simp


lemma read_loop_done:
  "\<not> nread < len \<Longrightarrow> read_loop p blk i len (k, nread, doff, ncopy, data, d) = Inr (int nread, data, d)"
  by (simp add: read_loop.simps)

lemma read_loop_step:
  "nread < len \<Longrightarrow> read_loop p blk i len (k, nread, doff, ncopy, data, d) =
     (case read_step p blk i len (k, nread, doff, ncopy, data, d) of
        Fault e \<Rightarrow> Inl e | Return res \<Rightarrow> Inr res
      | Continue s' \<Rightarrow> read_loop p blk i len s')"
  by (simp add: read_loop.simps)

lemma fs_read_unfold:
  assumes "disk fs \<noteq> 0" "n div INODES_PER_BLOCK + 1 < Disk.blocks d"
  shows "fs_read fs d n data len offset =
    read_loop (disk fs) (contents d (n div INODES_PER_BLOCK + 1)) (n mod INODES_PER_BLOCK)
      (if stored_size d n < add64 len offset then sub64 (stored_size d n) offset else len)
      (offset div BLOCK_SIZE, 0, offset mod BLOCK_SIZE,
       (if (if stored_size d n < add64 len offset then sub64 (stored_size d n) offset else len) < BLOCK_SIZE
        then (if stored_size d n < add64 len offset then sub64 (stored_size d n) offset else len)
        else BLOCK_SIZE - offset mod BLOCK_SIZE),
       data, d\<lparr>reads := reads d + 1\<rparr>)"
proof -
  have rd: "disk_read (disk fs) d (n div INODES_PER_BLOCK + 1) =
      (int BLOCK_SIZE, Some (contents d (n div INODES_PER_BLOCK + 1)), d\<lparr>reads := reads d + 1\<rparr>)"
    using assms by (simp add: disk_read_ok)
  show ?thesis
    unfolding fs_read_def Let_def stored_size_def
    by (simp only: rd prod.case option.case)
qed

text \<open>
  C4, as the code has it. For an inode whose block is on the device and a range that
  does not wrap around \<open>2 ^ 64\<close>: when the range starts before the stored size \<open>S\<close>
  and ends after it, \<^verbatim>\<open>fs_read\<close> is the read of \<open>S - offset\<close> bytes, and any count it
  returns is -1 or \<open>S - offset\<close>; when the range starts at \<open>S\<close>, it returns 0, not -1,
  and reads no data block.
\<close>
theorem fs_read_clamps:
  assumes "disk fs \<noteq> 0" and "n div INODES_PER_BLOCK + 1 < Disk.blocks d"
    and "offset + len < 2 ^ 64"
  shows "(offset < stored_size d n \<and> stored_size d n < offset + len \<longrightarrow>
            fs_read fs d n data len offset = fs_read fs d n data (stored_size d n - offset) offset \<and>
            (\<forall>r data' d'. fs_read fs d n data len offset = Inr (r, data', d') \<longrightarrow>
               r = - 1 \<or> r = int (stored_size d n - offset))) \<and>
         (offset = stored_size d n \<longrightarrow>
            fs_read fs d n data len offset = Inr (0, data, d\<lparr>reads := reads d + 1\<rparr>))"
proof (intro conjI impI allI)
  let ?S = "stored_size d n"
  have a: "add64 len offset = len + offset"
    using assms(3) by (simp add: add64_small add.commute)
  {
    assume "offset < ?S \<and> ?S < offset + len"
    then have h: "offset < ?S" "?S < offset + len" by simp_all
    have S64: "?S < 2 ^ 64" using h(2) assms(3) by simp
    have sub: "sub64 ?S offset = ?S - offset" using h(1) S64 by (simp add: sub64_le)
    have a2: "add64 (?S - offset) offset = ?S" using h(1) S64 by (simp add: add64_small)
    have l: "fs_read fs d n data len offset =
      read_loop (disk fs) (contents d (n div INODES_PER_BLOCK + 1)) (n mod INODES_PER_BLOCK)
        (?S - offset) (offset div BLOCK_SIZE, 0, offset mod BLOCK_SIZE,
         (if ?S - offset < BLOCK_SIZE then ?S - offset else BLOCK_SIZE - offset mod BLOCK_SIZE),
         data, d\<lparr>reads := reads d + 1\<rparr>)"
      unfolding fs_read_unfold[OF assms(1,2)] a sub using h(2) by (simp add: add.commute)
    have r: "fs_read fs d n data (?S - offset) offset =
      read_loop (disk fs) (contents d (n div INODES_PER_BLOCK + 1)) (n mod INODES_PER_BLOCK)
        (?S - offset) (offset div BLOCK_SIZE, 0, offset mod BLOCK_SIZE,
         (if ?S - offset < BLOCK_SIZE then ?S - offset else BLOCK_SIZE - offset mod BLOCK_SIZE),
         data, d\<lparr>reads := reads d + 1\<rparr>)"
      unfolding fs_read_unfold[OF assms(1,2)] a2 by simp
    show "fs_read fs d n data len offset = fs_read fs d n data (?S - offset) offset"
      unfolding l r ..
    fix r data' d'
    assume "fs_read fs d n data len offset = Inr (r, data', d')"
    then have "read_loop (disk fs) (contents d (n div INODES_PER_BLOCK + 1)) (n mod INODES_PER_BLOCK)
        (?S - offset) (offset div BLOCK_SIZE, 0, offset mod BLOCK_SIZE,
         (if ?S - offset < BLOCK_SIZE then ?S - offset else BLOCK_SIZE - offset mod BLOCK_SIZE),
         data, d\<lparr>reads := reads d + 1\<rparr>) = Inr (r, data', d')"
      unfolding l .
    moreover have "0 + (if ?S - offset < BLOCK_SIZE then ?S - offset
        else BLOCK_SIZE - offset mod BLOCK_SIZE) \<le> ?S - offset" by simp arith
    moreover have "?S - offset < 2 ^ 64" using S64 by simp
    ultimately show "r = - 1 \<or> r = int (?S - offset)"
      using read_loop_count by blast
  }
  assume e: "offset = ?S"
  have "(if ?S < add64 len offset then sub64 ?S offset else len) = 0"
  proof (cases "len = 0")
    case True
    then show ?thesis using e a by simp
  next
    case False
    have "sub64 ?S offset = 0" using e assms(3) by (simp add: sub64_le)
    then show ?thesis using e a False by simp
  qed
  then show "fs_read fs d n data len offset = Inr (0, data, d\<lparr>reads := reads d + 1\<rparr>)"
    unfolding fs_read_unfold[OF assms(1,2)] by (simp add: read_loop_done)
qed


lemma disk_read_fail:
  "\<not> disk_sanity_check p d b \<Longrightarrow> disk_read p d b = (DISK_FAILURE, None, d)"
  by (simp add: disk_read_def)

lemma disk_read_sane:
  "disk_sanity_check p d b \<Longrightarrow>
   disk_read p d b = (int BLOCK_SIZE, Some (contents d b), d\<lparr>reads := reads d + 1\<rparr>)"
  by (simp add: disk_read_def)

lemma BLOCK_SIZE_not_failure: "int BLOCK_SIZE \<noteq> DISK_FAILURE"
  by (simp add: DISK_FAILURE_def)

lemma disk_sanity_check_reads [simp]:
  "disk_sanity_check p (d\<lparr>reads := r\<rparr>) b = disk_sanity_check p d b"
  by (simp add: disk_sanity_check_def)

lemma read_fetch_direct_ok:
  assumes "k < POINTERS_PER_INODE" "disk_sanity_check p d (inode_direct blk i k)"
  shows "read_fetch p blk i k d =
    Continue (contents d (inode_direct blk i k), d\<lparr>reads := reads d + 1\<rparr>)"
  using assms by (simp add: read_fetch_def disk_read_sane BLOCK_SIZE_not_failure)

lemma read_fetch_direct_fail:
  assumes "k < POINTERS_PER_INODE" "\<not> disk_sanity_check p d (inode_direct blk i k)"
  shows "read_fetch p blk i k d = Return (- 1, d)"
  using assms by (simp add: read_fetch_def disk_read_fail)

lemma read_fetch_indirect_fail:
  assumes "POINTERS_PER_INODE \<le> k" "\<not> disk_sanity_check p d (inode_indirect blk i)"
  shows "read_fetch p blk i k d = Return (- 1, d)"
  using assms by (simp add: read_fetch_def disk_read_fail Let_def)

lemma read_fetch_pointer_fail:
  assumes "POINTERS_PER_INODE \<le> k" "k - POINTERS_PER_INODE < POINTERS_PER_BLOCK"
    and "disk_sanity_check p d (inode_indirect blk i)"
    and "\<not> disk_sanity_check p d (pointers (contents d (inode_indirect blk i)) (k - POINTERS_PER_INODE))"
  shows "read_fetch p blk i k d = Return (- 1, d\<lparr>reads := reads d + 1\<rparr>)"
  using assms
  by (simp add: read_fetch_def disk_read_sane disk_read_fail Let_def BLOCK_SIZE_not_failure)

lemma read_fetch_indirect_ok:
  assumes "POINTERS_PER_INODE \<le> k" "k - POINTERS_PER_INODE < POINTERS_PER_BLOCK"
    and "disk_sanity_check p d (inode_indirect blk i)"
    and "disk_sanity_check p d (pointers (contents d (inode_indirect blk i)) (k - POINTERS_PER_INODE))"
  shows "read_fetch p blk i k d =
    Continue (contents d (pointers (contents d (inode_indirect blk i)) (k - POINTERS_PER_INODE)),
      d\<lparr>reads := reads d + 2\<rparr>)"
  using assms
  by (simp add: read_fetch_def disk_read_sane Let_def BLOCK_SIZE_not_failure)

lemma read_step_copy:
  assumes "read_fetch p blk i k d = Continue (b, d')" "doff + ncopy \<le> BLOCK_SIZE"
  shows "read_step p blk i len (k, nread, doff, ncopy, data, d) =
    Continue (k + 1, nread + ncopy, 0,
      (if sub64 len (nread + ncopy) > BLOCK_SIZE then BLOCK_SIZE else sub64 len (nread + ncopy)),
      memcpy data nread b doff ncopy, d')"
  using assms by (simp add: read_step_def Let_def)

lemma read_step_fail:
  assumes "read_fetch p blk i k d = Return (r, d')"
  shows "read_step p blk i len (k, nread, doff, ncopy, data, d) = Return (r, data, d')"
  using assms by (simp add: read_step_def)

lemma file_disk_simps:
  "Disk.blocks file_disk = 20" "reads file_disk = 0" "writes file_disk = 0"
  "contents file_disk (Suc 0) = file_inode_block"
  "contents file_disk 8 = set_pointers zero_block 0 9"
  "contents file_disk 9 = zero_block"
  "disk file_fs = 1"
  by (simp_all add: file_disk_def sfs_disk_def fresh_disk_def file_fs_def mounted_fs_def)

lemma stored_size_file_disk: "stored_size file_disk 0 = 24576"
  by (simp add: stored_size_def file_disk_simps file_inode_fields)

lemma fs_read_file_disk_last_block:
  "fs_read file_fs file_disk 0 zero_block 4096 20480 =
     Inr (4096, memcpy zero_block 0 zero_block 0 4096, file_disk\<lparr>reads := 3\<rparr>)"
proof -
  let ?d1 = "file_disk\<lparr>reads := reads file_disk + 1\<rparr>"
  have u: "fs_read file_fs file_disk 0 zero_block 4096 20480 =
      read_loop 1 file_inode_block 0 4096 (5, 0, 0, 4096, zero_block, ?d1)"
    by (subst fs_read_unfold)
       (simp_all add: file_disk_simps stored_size_file_disk add64_def BLOCK_SIZE_def)
  have f: "read_fetch 1 file_inode_block 0 5 ?d1 =
      Continue (contents ?d1 (pointers (contents ?d1 (inode_indirect file_inode_block 0))
        (5 - POINTERS_PER_INODE)), ?d1\<lparr>reads := reads ?d1 + 2\<rparr>)"
    by (rule read_fetch_indirect_ok)
       (simp_all add: POINTERS_PER_INODE_def POINTERS_PER_BLOCK_def file_inode_fields
          file_disk_simps disk_sanity_check_def pointers_set_pointers)
  have f': "read_fetch 1 file_inode_block 0 5 ?d1 = Continue (zero_block, file_disk\<lparr>reads := 3\<rparr>)"
    unfolding f
    by (simp add: POINTERS_PER_INODE_def file_inode_fields file_disk_simps pointers_set_pointers)
  have st: "read_step 1 file_inode_block 0 4096 (5, 0, 0, 4096, zero_block, ?d1) =
      Continue (5 + 1, 0 + 4096, 0,
        (if sub64 4096 (0 + 4096) > BLOCK_SIZE then BLOCK_SIZE else sub64 4096 (0 + 4096)),
        memcpy zero_block 0 zero_block 0 4096, file_disk\<lparr>reads := 3\<rparr>)"
    by (rule read_step_copy[OF f']) (simp add: BLOCK_SIZE_def)
  show ?thesis
    unfolding u
    by (subst read_loop_step, simp, subst st, simp add: read_loop_done)
qed


lemma sparse_disk_simps:
  "Disk.blocks sparse_disk = 20" "reads sparse_disk = 0" "writes sparse_disk = 0"
  "contents sparse_disk (Suc 0) =
     set_inode_direct (set_inode_size (set_inode_valid zero_block 0 1) 0 8192) 0 1 3"
  "contents sparse_disk 0 = super_image (format_block (fresh_disk 20))"
  "disk sparse_fs = 1"
  by (simp_all add: sparse_disk_def sfs_disk_def fresh_disk_def sparse_fs_def mounted_fs_def)

lemma sparse_inode_fields:
  "inode_valid (contents sparse_disk (Suc 0)) 0 = 1"
  "inode_size (contents sparse_disk (Suc 0)) 0 = 8192"
  "inode_direct (contents sparse_disk (Suc 0)) 0 0 = 0"
  "inode_direct (contents sparse_disk (Suc 0)) 0 (Suc 0) = 3"
  "inode_indirect (contents sparse_disk (Suc 0)) 0 = 0"
  by (simp_all add: sparse_disk_simps block_field_defs get32_simps)

lemma stored_size_sparse_disk: "stored_size sparse_disk 0 = 8192"
  by (simp add: stored_size_def sparse_inode_fields)

theorem fs_read_clamps_witness:
  "fs_read file_fs file_disk 0 zero_block 5000 20480 =
     Inr (4096, memcpy zero_block 0 zero_block 0 4096, file_disk\<lparr>reads := 3\<rparr>) \<and>
   fs_read sparse_fs sparse_disk 0 zero_block 10 8192 =
     Inr (0, zero_block, sparse_disk\<lparr>reads := 1\<rparr>)"
  using fs_read_clamps [where fs = file_fs and n = 0 and d = file_disk and offset = 20480
      and len = 5000 and data = zero_block]
    fs_read_clamps [where fs = sparse_fs and n = 0 and d = sparse_disk and offset = 8192
      and len = 10 and data = zero_block]
    fs_read_file_disk_last_block
  by (simp add: file_disk_simps sparse_disk_simps stored_size_file_disk stored_size_sparse_disk)

text \<open>
  C4 as stated fails: a read that starts exactly at the stored size returns 0.
\<close>
theorem fs_read_at_end_counterexample:
  "stored_size file_disk 0 = 24576 \<and>
   fs_read file_fs file_disk 0 zero_block 10 24576 = Inr (0, zero_block, file_disk\<lparr>reads := 1\<rparr>)"
proof
  show "stored_size file_disk 0 = 24576" by (rule stored_size_file_disk)
  show "fs_read file_fs file_disk 0 zero_block 10 24576 = Inr (0, zero_block, file_disk\<lparr>reads := 1\<rparr>)"
    by (subst fs_read_unfold)
       (simp_all add: file_disk_simps stored_size_file_disk add64_def sub64_def read_loop_done)
qed

lemma sfs_disk_simps:
  "Disk.blocks (sfs_disk 20) = 20" "reads (sfs_disk 20) = 0" "writes (sfs_disk 20) = 0"
  "contents (sfs_disk 20) 0 = super_image (format_block (fresh_disk 20))"
  "0 < k \<Longrightarrow> contents (sfs_disk 20) k = zero_block"
  by (simp_all add: sfs_disk_def fresh_disk_def)

lemma pointers_super_image: "pointers (super_image sb) 0 = magic_number sb mod 2 ^ 32"
  by (simp add: pointers_def super_image_def get32_simps)

subsection \<open>fs_write\<close>

lemma inode_valid_frame:
  "inode_valid (set_inode_size b i v) i = inode_valid b i"
  "inode_valid (set_inode_direct b i k v) i = inode_valid b i"
  "inode_valid (set_inode_indirect b i v) i = inode_valid b i"
  "inode_valid zero_block i = 0"
  by (simp_all add: block_field_defs get32_simps)

lemma inode_size_frame:
  "inode_size (set_inode_valid b i v) i = inode_size b i"
  "inode_size (set_inode_size b i v) i = v mod 2 ^ 32"
  "inode_size (set_inode_direct b i k v) i = inode_size b i"
  "inode_size (set_inode_indirect b i v) i = inode_size b i"
  "inode_size zero_block i = 0"
  by (simp_all add: block_field_defs get32_simps)

lemma inode_direct_frame:
  "inode_direct (set_inode_valid b i v) i k = inode_direct b i k"
  "inode_direct (set_inode_size b i v) i k = inode_direct b i k"
  "k < POINTERS_PER_INODE \<Longrightarrow> inode_direct (set_inode_indirect b i v) i k = inode_direct b i k"
  "inode_direct zero_block i k = 0"
  by (simp_all add: block_field_defs get32_simps)

lemma inode_indirect_frame:
  "inode_indirect (set_inode_valid b i v) i = inode_indirect b i"
  "inode_indirect (set_inode_size b i v) i = inode_indirect b i"
  "inode_indirect (set_inode_indirect b i v) i = v mod 2 ^ 32"
  "inode_indirect zero_block i = 0"
  by (simp_all add: block_field_defs get32_simps)

lemmas inode_field_simps = inode_valid_set_valid inode_valid_frame inode_size_frame
  inode_direct_set_direct inode_direct_frame inode_indirect_set_direct inode_indirect_frame

lemma find_free_loop_app:
  assumes "\<forall>j\<in>set xs. j < length a \<and> \<not> a ! j"
  shows "find_free_loop (xs @ ys) (Some a) = find_free_loop ys (Some a)"
  using assms by (induction xs) simp_all

lemma find_free_loop_found:
  assumes "n \<le> length a" "i < n" "a ! i" "\<forall>j<i. \<not> a ! j"
  shows "find_free_loop [0..<n] (Some a) = Inr (i, Some (a[i := False]))"
proof -
  have sp: "[0..<n] = [0..<i] @ i # [Suc i..<n]" using assms(2) by (intro upt_split) simp_all
  have "find_free_loop ([0..<i] @ i # [Suc i..<n]) (Some a) = find_free_loop (i # [Suc i..<n]) (Some a)"
    using assms by (intro find_free_loop_app) simp
  then show ?thesis unfolding sp using assms by simp
qed

lemma find_free_loop_none:
  assumes "n \<le> length a" "\<forall>j<n. \<not> a ! j"
  shows "find_free_loop [0..<n] (Some a) = Inr (0, Some a)"
  using find_free_loop_app[of "[0..<n]" a "[]"] assms by simp

lemma find_free_block_found:
  assumes "free_blocks fs = Some a" "SuperBlock.blocks (meta_data fs) \<le> length a"
    and "i < SuperBlock.blocks (meta_data fs)" "a ! i" "\<forall>j<i. \<not> a ! j"
  shows "find_free_block fs = Inr (i, fs\<lparr>free_blocks := Some (a[i := False])\<rparr>)"
  using find_free_loop_found[OF assms(2-5)] assms(1) by (simp add: find_free_block_def)

lemma disk_write_sane:
  "disk_sanity_check p d b \<Longrightarrow>
   disk_write p d b x = (int BLOCK_SIZE, d\<lparr>writes := writes d + 1, contents := (contents d)(b := x)\<rparr>)"
  by (simp add: disk_write_def)

lemma disk_sanity_check_writes [simp]:
  "disk_sanity_check p (d\<lparr>writes := w\<rparr>) b = disk_sanity_check p d b"
  "disk_sanity_check p (d\<lparr>contents := c\<rparr>) b = disk_sanity_check p d b"
  by (simp_all add: disk_sanity_check_def)

lemma write_direct_alloc:
  assumes "inode_direct blk i k = 0" "find_free_block fs = Inr (b, fs1)" "b \<noteq> 0" "b < 2 ^ 32"
    and "disk_sanity_check (disk fs) d b"
  shows "write_direct fs d blk i k doff ncopy data nwrite =
    (if doff + ncopy > BLOCK_SIZE then Fault OutOfBounds
     else Continue (set_inode_direct blk i k b, fs1,
       d\<lparr>reads := reads d + 1, writes := writes d + 1,
         contents := (contents d)(b := memcpy (contents d b) doff data nwrite ncopy)\<rparr>))"
  using assms
  by (simp add: write_direct_def inode_direct_set_direct disk_read_sane disk_write_sane
      BLOCK_SIZE_not_failure Let_def)

lemma write_direct_existing:
  assumes "inode_direct blk i k \<noteq> 0" "disk_sanity_check (disk fs) d (inode_direct blk i k)"
  shows "write_direct fs d blk i k doff ncopy data nwrite =
    (if doff + ncopy > BLOCK_SIZE then Fault OutOfBounds
     else Continue (blk, fs,
       d\<lparr>reads := reads d + 1, writes := writes d + 1,
         contents := (contents d)(inode_direct blk i k :=
           memcpy (contents d (inode_direct blk i k)) doff data nwrite ncopy)\<rparr>))"
  using assms
  by (simp add: write_direct_def disk_read_sane disk_write_sane BLOCK_SIZE_not_failure Let_def)

lemma write_loop_done:
  "\<not> nwrite < len \<Longrightarrow>
   write_loop bn i data len offset (blk, k, nwrite, doff, ncopy, fs, d) = Inr (int nwrite, fs, d)"
  by (simp add: write_loop.simps)

lemma write_loop_step:
  "nwrite < len \<Longrightarrow> write_loop bn i data len offset (blk, k, nwrite, doff, ncopy, fs, d) =
     (case write_step bn i data len offset (blk, k, nwrite, doff, ncopy, fs, d) of
        Fault e \<Rightarrow> Inl e | Return res \<Rightarrow> Inr res
      | Continue s' \<Rightarrow> write_loop bn i data len offset s')"
  by (simp add: write_loop.simps)

lemma write_block_direct:
  "k < POINTERS_PER_INODE \<Longrightarrow>
   write_block fs d blk i k doff ncopy data nwrite = write_direct fs d blk i k doff ncopy data nwrite"
  by (simp add: write_block_def)

lemma write_block_indirect:
  "\<not> k < POINTERS_PER_INODE \<Longrightarrow>
   write_block fs d blk i k doff ncopy data nwrite = write_indirect fs d blk i k doff ncopy data nwrite"
  by (simp add: write_block_def)

lemma write_step_fault:
  "write_block fs d blk i k doff ncopy data nwrite = Fault e \<Longrightarrow>
   write_step bn i data len offset (blk, k, nwrite, doff, ncopy, fs, d) = Fault e"
  by (simp add: write_step_def)

lemma write_step_return:
  "write_block fs d blk i k doff ncopy data nwrite = Return res \<Longrightarrow>
   write_step bn i data len offset (blk, k, nwrite, doff, ncopy, fs, d) = Return res"
  by (simp add: write_step_def)

lemma write_step_continue:
  "write_block fs d blk i k doff ncopy data nwrite = Continue (blk1, fs1, d1) \<Longrightarrow>
   write_step bn i data len offset (blk, k, nwrite, doff, ncopy, fs, d) =
     Continue (if add64 offset (nwrite + ncopy) > inode_size blk1 i
               then set_inode_size blk1 i (add64 offset (nwrite + ncopy)) else blk1,
       k + 1, nwrite + ncopy, 0,
       (if sub64 len (nwrite + ncopy) > BLOCK_SIZE then BLOCK_SIZE else sub64 len (nwrite + ncopy)),
       fs1,
       snd (disk_write (disk fs) d1 bn
         (if add64 offset (nwrite + ncopy) > inode_size blk1 i
          then set_inode_size blk1 i (add64 offset (nwrite + ncopy)) else blk1)))"
  by (simp add: write_step_def Let_def split: prod.splits)

lemma fs_write_unfold:
  assumes "disk fs \<noteq> 0" "n div INODES_PER_BLOCK + 1 < Disk.blocks d"
  shows "fs_write fs d n data len offset =
    (if inode_valid (contents d (n div INODES_PER_BLOCK + 1)) (n mod INODES_PER_BLOCK) = 0
     then Inr (- 1, fs, d\<lparr>reads := reads d + 1\<rparr>)
     else write_loop (n div INODES_PER_BLOCK + 1) (n mod INODES_PER_BLOCK) data len offset
       (contents d (n div INODES_PER_BLOCK + 1), offset div BLOCK_SIZE, 0, offset mod BLOCK_SIZE,
        (if len < BLOCK_SIZE then len else BLOCK_SIZE - offset mod BLOCK_SIZE), fs,
        d\<lparr>reads := reads d + 1\<rparr>))"
proof -
  have rd: "disk_read (disk fs) d (n div INODES_PER_BLOCK + 1) =
      (int BLOCK_SIZE, Some (contents d (n div INODES_PER_BLOCK + 1)), d\<lparr>reads := reads d + 1\<rparr>)"
    using assms by (simp add: disk_read_ok)
  show ?thesis
    unfolding fs_write_def Let_def
    by (simp only: rd prod.case option.case)
qed

lemma created_disk_simps:
  "Disk.blocks created_disk = 20" "reads created_disk = 1" "writes created_disk = 1"
  "contents created_disk (Suc 0) = set_inode_valid zero_block 0 1"
  "contents created_disk 0 = super_image (format_block (fresh_disk 20))"
  "Suc 0 < k \<Longrightarrow> contents created_disk k = zero_block"
  by (simp_all add: created_disk_def sfs_disk_def fresh_disk_def)

lemma mounted_fs_simps:
  "disk (mounted_fs p) = p"
  "free_blocks (mounted_fs p) = Some ((replicate 20 True)[0 := False, 1 := False, 2 := False])"
  "SuperBlock.blocks (meta_data (mounted_fs p)) = 20"
  "inode_blocks (meta_data (mounted_fs p)) = 2"
  "inodes (meta_data (mounted_fs p)) = 256"
  by (simp_all add: mounted_fs_def format_block_20)

lemma find_free_block_mounted:
  "find_free_block (mounted_fs p) = Inr (3, (mounted_fs p)\<lparr>free_blocks :=
     Some ((replicate 20 True)[0 := False, 1 := False, 2 := False, 3 := False])\<rparr>)"
proof -
  have "\<forall>j<3. \<not> ((replicate 20 True)[0 := False, 1 := False, 2 := False]) ! j"
  proof (intro allI impI)
    fix j :: nat assume "j < 3"
    then have "j = 0 \<or> j = 1 \<or> j = 2" by arith
    then show "\<not> ((replicate 20 True)[0 := False, 1 := False, 2 := False]) ! j" by auto
  qed
  then show ?thesis
    by (intro find_free_block_found) (simp_all add: mounted_fs_simps)
qed

text \<open>
  C3. A write of 200 bytes at offset 4000 to the new inode 0: \<^verbatim>\<open>length < BLOCK_SIZE\<close>
  makes \<^verbatim>\<open>ncopy = length\<close>, and the first \<^verbatim>\<open>memcpy\<close> copies 200 bytes to offset 4000 of
  the 4096-byte block buffer, 104 bytes past its end. Nothing is written to logical
  block 1, so no read can return the bytes.
\<close>
theorem fs_write_unaligned_overrun:
  "fs_write (mounted_fs 1) created_disk 0 data 200 4000 = Inl OutOfBounds"
proof -
  let ?blk = "set_inode_valid zero_block 0 1"
  let ?d1 = "created_disk\<lparr>reads := reads created_disk + 1\<rparr>"
  have v: "inode_direct ?blk 0 0 = 0"
    by (simp add: inode_field_simps)
  have u: "fs_write (mounted_fs 1) created_disk 0 data 200 4000 =
      write_loop 1 0 data 200 4000 (?blk, 0, 0, 4000, 200, mounted_fs 1, ?d1)"
    by (subst fs_write_unfold)
       (simp_all add: created_disk_simps mounted_fs_simps inode_field_simps BLOCK_SIZE_def)
  have wd: "write_direct (mounted_fs 1) ?d1 ?blk 0 0 4000 200 data 0 = Fault OutOfBounds"
    by (subst write_direct_alloc[OF v find_free_block_mounted])
       (simp_all add: disk_sanity_check_def mounted_fs_simps created_disk_simps BLOCK_SIZE_def)
  have st: "write_step 1 0 data 200 4000 (?blk, 0, 0, 4000, 200, mounted_fs 1, ?d1) = Fault OutOfBounds"
    by (rule write_step_fault, subst write_block_direct, simp add: POINTERS_PER_INODE_def, rule wd)
  show ?thesis unfolding u by (subst write_loop_step, simp, subst st, simp)
qed



lemma find_free_block_disk:
  "find_free_block fs = Inr (b, fs1) \<Longrightarrow> disk fs1 = disk fs"
  by (auto simp add: find_free_block_def split: sum.splits prod.splits)

lemma disk_read_blocks:
  "disk_read p d b = (r, buf, d1) \<Longrightarrow> Disk.blocks d1 = Disk.blocks d"
  by (auto simp add: disk_read_def split: if_splits)

lemma disk_write_blocks:
  "disk_write p d b x = (r, d1) \<Longrightarrow> Disk.blocks d1 = Disk.blocks d"
  by (auto simp add: disk_write_def split: if_splits)

lemma write_direct_Continue:
  assumes "write_direct fs d blk i k doff ncopy data nwrite = Continue (blk1, fs1, d1)"
  shows "Disk.blocks d1 = Disk.blocks d \<and> disk fs1 = disk fs \<and>
     inode_size blk1 i = inode_size blk i \<and> inode_valid blk1 i = inode_valid blk i"
proof (cases "inode_direct blk i k = 0")
  case False
  with assms show ?thesis
    by (auto simp add: write_direct_def Let_def split: prod.splits if_splits
        simp add: disk_read_def disk_write_def)
next
  case True
  show ?thesis
  proof (cases "find_free_block fs")
    case (Inl e)
    with assms True show ?thesis by (simp add: write_direct_def)
  next
    case (Inr x)
    obtain b fs' where x: "x = (b, fs')" by (cases x)
    from assms True Inr x show ?thesis
      by (auto simp add: write_direct_def Let_def inode_field_simps
          split: prod.splits if_splits
          simp add: disk_read_def disk_write_def dest: find_free_block_disk)
  qed
qed

lemma write_direct_Return:
  assumes "write_direct fs d blk i k doff ncopy data nwrite = Return (r, fs1, d1)"
  shows "r = - 1"
proof (cases "inode_direct blk i k = 0")
  case False
  with assms show ?thesis
    by (auto simp add: write_direct_def Let_def split: prod.splits if_splits)
next
  case True
  show ?thesis
  proof (cases "find_free_block fs")
    case (Inl e)
    with assms True show ?thesis by (simp add: write_direct_def)
  next
    case (Inr x)
    obtain b fs' where x: "x = (b, fs')" by (cases x)
    from assms True Inr x show ?thesis
      by (auto simp add: write_direct_def Let_def split: prod.splits if_splits)
  qed
qed

lemma write_indirect_block_Continue:
  assumes "write_indirect_block fs d blk i = Continue (blk1, ind, fs1, d1)"
  shows "Disk.blocks d1 = Disk.blocks d \<and> disk fs1 = disk fs \<and>
     inode_size blk1 i = inode_size blk i \<and> inode_valid blk1 i = inode_valid blk i"
  using assms
  by (auto simp add: write_indirect_block_def inode_field_simps
      split: prod.splits if_splits sum.splits
      simp add: disk_read_def dest: find_free_block_disk)

lemma write_indirect_block_Return:
  assumes "write_indirect_block fs d blk i = Return (r, fs1, d1)"
  shows "r = - 1"
  using assms
  by (auto simp add: write_indirect_block_def split: prod.splits if_splits sum.splits)

lemma write_indirect_data_Continue:
  assumes "write_indirect_data fs d blk i ind off = Continue (ind1, data_blk, fs1, d1)"
  shows "Disk.blocks d1 = Disk.blocks d \<and> disk fs1 = disk fs"
  using assms
  by (auto simp add: write_indirect_data_def Let_def
      split: prod.splits if_splits sum.splits
      simp add: disk_read_def disk_write_def dest: find_free_block_disk)

lemma write_indirect_data_Return:
  assumes "write_indirect_data fs d blk i ind off = Return (r, fs1, d1)"
  shows "r = - 1"
  using assms
  by (auto simp add: write_indirect_data_def Let_def split: prod.splits if_splits sum.splits)

lemma write_indirect_Continue:
  assumes "write_indirect fs d blk i k doff ncopy data nwrite = Continue (blk1, fs1, d1)"
  shows "Disk.blocks d1 = Disk.blocks d \<and> disk fs1 = disk fs \<and>
     inode_size blk1 i = inode_size blk i \<and> inode_valid blk1 i = inode_valid blk i"
proof (cases "write_indirect_block fs d blk i")
  case (Fault e)
  with assms show ?thesis by (simp add: write_indirect_def)
next
  case (Return res)
  with assms show ?thesis by (simp add: write_indirect_def)
next
  case (Continue x)
  obtain blk' ind fs' d' where x: "x = (blk', ind, fs', d')" by (cases x)
  note a = write_indirect_block_Continue[OF Continue[unfolded x]]
  show ?thesis
  proof (cases "write_indirect_data fs' d' blk' i ind (k - POINTERS_PER_INODE)")
    case (Fault e)
    with assms Continue x show ?thesis by (simp add: write_indirect_def Let_def split: if_splits)
  next
    case (Return res)
    with assms Continue x show ?thesis by (simp add: write_indirect_def Let_def split: if_splits)
  next
    case c: (Continue y)
    obtain ind1 data_blk fs'' d'' where y: "y = (ind1, data_blk, fs'', d'')" by (cases y)
    note b = write_indirect_data_Continue[OF c[unfolded y]]
    from assms Continue x c y a b show ?thesis
      by (auto simp add: write_indirect_def Let_def split: if_splits prod.splits
          simp add: disk_write_def)
  qed
qed

lemma write_indirect_Return:
  assumes "write_indirect fs d blk i k doff ncopy data nwrite = Return (r, fs1, d1)"
  shows "r = - 1"
proof (cases "write_indirect_block fs d blk i")
  case (Fault e)
  with assms show ?thesis by (simp add: write_indirect_def)
next
  case (Return res)
  with assms write_indirect_block_Return[of fs d blk i] show ?thesis
    by (cases res) (auto simp add: write_indirect_def)
next
  case (Continue x)
  obtain blk' ind fs' d' where x: "x = (blk', ind, fs', d')" by (cases x)
  show ?thesis
  proof (cases "write_indirect_data fs' d' blk' i ind (k - POINTERS_PER_INODE)")
    case (Fault e)
    with assms Continue x show ?thesis by (simp add: write_indirect_def Let_def split: if_splits)
  next
    case (Return res)
    with assms Continue x write_indirect_data_Return[of fs' d' blk' i ind "k - POINTERS_PER_INODE"]
    show ?thesis by (cases res) (auto simp add: write_indirect_def Let_def split: if_splits)
  next
    case c: (Continue y)
    obtain ind1 data_blk fs'' d'' where y: "y = (ind1, data_blk, fs'', d'')" by (cases y)
    from assms Continue x c y show ?thesis
      by (auto simp add: write_indirect_def Let_def split: if_splits prod.splits)
  qed
qed

lemma write_block_Continue:
  assumes "write_block fs d blk i k doff ncopy data nwrite = Continue (blk1, fs1, d1)"
  shows "Disk.blocks d1 = Disk.blocks d \<and> disk fs1 = disk fs \<and>
     inode_size blk1 i = inode_size blk i \<and> inode_valid blk1 i = inode_valid blk i"
  using assms write_direct_Continue write_indirect_Continue
  by (cases "k < POINTERS_PER_INODE") (simp_all add: write_block_def)

lemma write_block_Return:
  assumes "write_block fs d blk i k doff ncopy data nwrite = Return (r, fs1, d1)"
  shows "r = - 1"
  using assms write_direct_Return write_indirect_Return
  by (cases "k < POINTERS_PER_INODE") (simp_all add: write_block_def)

lemma write_step_Return:
  assumes "write_step bn i data len offset (blk, k, nwrite, doff, ncopy, fs, d) = Return (r, fs1, d1)"
  shows "r = - 1"
proof (cases "write_block fs d blk i k doff ncopy data nwrite")
  case (Fault e)
  with assms show ?thesis by (simp add: write_step_def)
next
  case (Return res)
  with assms have "res = (r, fs1, d1)" by (simp add: write_step_def)
  with Return write_block_Return show ?thesis by blast
next
  case (Continue x)
  with assms show ?thesis by (cases x) (simp add: write_step_def Let_def split: prod.splits)
qed


lemma BLOCK_SIZE_pos: "0 < BLOCK_SIZE"
  by (simp add: BLOCK_SIZE_def)

lemma write_step_size:
  assumes "disk fs \<noteq> 0" "bn < Disk.blocks d" "offset + (nwrite + ncopy) < 2 ^ 32"
    and "write_step bn i data len offset (blk, k, nwrite, doff, ncopy, fs, d) =
           Continue (blk', k', nwrite', doff', ncopy', fs', d')"
  shows "nwrite' = nwrite + ncopy \<and>
     ncopy' = (if sub64 len (nwrite + ncopy) > BLOCK_SIZE then BLOCK_SIZE
               else sub64 len (nwrite + ncopy)) \<and>
     inode_size blk' i = max (inode_size blk i) (offset + nwrite') \<and>
     inode_valid blk' i = inode_valid blk i \<and>
     contents d' bn = blk' \<and> Disk.blocks d' = Disk.blocks d \<and> disk fs' = disk fs"
proof (cases "write_block fs d blk i k doff ncopy data nwrite")
  case (Fault e)
  with assms(4) show ?thesis by (simp add: write_step_def)
next
  case (Return res)
  with assms(4) show ?thesis by (simp add: write_step_def)
next
  case (Continue x)
  obtain blk1 fs1 d1 where x: "x = (blk1, fs1, d1)" by (cases x)
  note wb = write_block_Continue[OF Continue[unfolded x]]
  let ?blk2 = "if add64 offset (nwrite + ncopy) > inode_size blk1 i
               then set_inode_size blk1 i (add64 offset (nwrite + ncopy)) else blk1"
  have st: "Continue (blk', k', nwrite', doff', ncopy', fs', d') =
     Continue (?blk2, k + 1, nwrite + ncopy, 0,
       (if sub64 len (nwrite + ncopy) > BLOCK_SIZE then BLOCK_SIZE else sub64 len (nwrite + ncopy)),
       fs1, snd (disk_write (disk fs) d1 bn ?blk2))"
    using write_step_continue[OF Continue[unfolded x], of bn len offset] assms(4) by simp
  have a64: "add64 offset (nwrite + ncopy) = offset + (nwrite + ncopy)"
    using assms(3) by (simp add: add64_def)
  have m32: "(offset + (nwrite + ncopy)) mod 2 ^ 32 = offset + (nwrite + ncopy)"
    using assms(3) by simp
  have wr: "disk_write (disk fs) d1 bn ?blk2 =
      (int BLOCK_SIZE, d1\<lparr>writes := writes d1 + 1, contents := (contents d1)(bn := ?blk2)\<rparr>)"
    using assms(1,2) wb by (intro disk_write_ok) simp_all
  have sz: "inode_size ?blk2 i = max (inode_size blk i) (offset + (nwrite + ncopy))"
    using wb m32 unfolding a64 by (simp add: inode_field_simps max_def)
  have vl: "inode_valid ?blk2 i = inode_valid blk i"
    using wb by (simp add: inode_field_simps)
  from st have e: "blk' = ?blk2" "nwrite' = nwrite + ncopy" "fs' = fs1"
    "ncopy' = (if sub64 len (nwrite + ncopy) > BLOCK_SIZE then BLOCK_SIZE
               else sub64 len (nwrite + ncopy))"
    "d' = snd (disk_write (disk fs) d1 bn ?blk2)" by simp_all
  show ?thesis
    unfolding e(2) e(4) using sz vl wb unfolding e(1) e(3) e(5) wr by simp
qed

lemma write_loop_size_aux:
  assumes "write_loop bn i data len offset s = Inr (int len, fs', d')"
    and "0 < len" "offset + len < 2 ^ 32"
    and "case s of (blk, k, nwrite, doff, ncopy, fs, d) \<Rightarrow>
       disk fs \<noteq> 0 \<and> bn < Disk.blocks d \<and> nwrite + ncopy \<le> len \<and>
       (nwrite < len \<longrightarrow> 0 < ncopy) \<and> inode_valid blk i \<noteq> 0 \<and>
       (if nwrite = 0 then inode_size blk i = S0
        else contents d bn = blk \<and> inode_size blk i = max S0 (offset + nwrite))"
  shows "disk fs' \<noteq> 0 \<and> bn < Disk.blocks d' \<and> inode_valid (contents d' bn) i \<noteq> 0 \<and>
     inode_size (contents d' bn) i = max S0 (offset + len)"
  using assms
proof (induction bn i data len offset s rule: write_loop.induct)
  case (1 bn i data len offset blk k nwrite doff ncopy fs d)
  from "1.prems"(4) have J: "disk fs \<noteq> 0" "bn < Disk.blocks d" "nwrite + ncopy \<le> len"
    "nwrite < len \<longrightarrow> 0 < ncopy" "inode_valid blk i \<noteq> 0"
    "if nwrite = 0 then inode_size blk i = S0
     else contents d bn = blk \<and> inode_size blk i = max S0 (offset + nwrite)"
    by simp_all
  show ?case
  proof (cases "nwrite < len")
    case False
    with J(3) have "nwrite = len" by simp
    moreover from False "1.prems"(1) have "fs' = fs" "d' = d" by (simp_all add: write_loop_done)
    ultimately show ?thesis using J "1.prems"(2) by simp
  next
    case True
    show ?thesis
    proof (cases "write_step bn i data len offset (blk, k, nwrite, doff, ncopy, fs, d)")
      case (Fault e)
      with True "1.prems"(1) show ?thesis by (simp add: write_loop_step)
    next
      case (Return res)
      with True "1.prems"(1) have "res = (int len, fs', d')" by (simp add: write_loop_step)
      with Return write_step_Return[of bn i data len offset blk k nwrite doff ncopy fs d "int len" fs' d']
      show ?thesis by simp
    next
      case (Continue s')
      obtain blk2 k2 nwrite2 doff2 ncopy2 fs2 d2 where
        s': "s' = (blk2, k2, nwrite2, doff2, ncopy2, fs2, d2)" by (cases s')
      have b32: "offset + (nwrite + ncopy) < 2 ^ 32" using J(3) "1.prems"(3) by simp
      note st = write_step_size[OF J(1,2) b32 Continue[unfolded s']]
      have l64: "len < 2 ^ 64"
      proof -
        have "len < (2::nat) ^ 32" using "1.prems"(3) by simp
        also have "\<dots> < 2 ^ 64" by simp
        finally show ?thesis .
      qed
      have sub: "sub64 len (nwrite + ncopy) = len - (nwrite + ncopy)"
        using J(3) l64 by (simp add: sub64_le)
      have nc: "ncopy2 = (if len - (nwrite + ncopy) > BLOCK_SIZE then BLOCK_SIZE
                          else len - (nwrite + ncopy))"
        using st sub by simp
      have n2: "nwrite2 = nwrite + ncopy" using st by simp
      have pos: "0 < nwrite2" using n2 True J(4) by simp
      have J': "case s' of (blk, k, nwrite, doff, ncopy, fs, d) \<Rightarrow>
         disk fs \<noteq> 0 \<and> bn < Disk.blocks d \<and> nwrite + ncopy \<le> len \<and>
         (nwrite < len \<longrightarrow> 0 < ncopy) \<and> inode_valid blk i \<noteq> 0 \<and>
         (if nwrite = 0 then inode_size blk i = S0
          else contents d bn = blk \<and> inode_size blk i = max S0 (offset + nwrite))"
        unfolding s' prod.case
      proof (intro conjI)
        show "disk fs2 \<noteq> 0" using st J(1) by simp
        show "bn < Disk.blocks d2" using st J(2) by simp
        show "nwrite2 + ncopy2 \<le> len" using J(3) unfolding n2 nc
          by (cases "BLOCK_SIZE < len - (nwrite + ncopy)") simp_all
        show "nwrite2 < len \<longrightarrow> 0 < ncopy2" using BLOCK_SIZE_pos unfolding n2 nc
          by (cases "BLOCK_SIZE < len - (nwrite + ncopy)") simp_all
        show "inode_valid blk2 i \<noteq> 0" using st J(5) by simp
        have "inode_size blk2 i = max S0 (offset + nwrite2)"
        proof (cases "nwrite = 0")
          case True
          then show ?thesis using st J(6) by simp
        next
          case False
          then have "inode_size blk i = max S0 (offset + nwrite)" using J(6) by simp
          then show ?thesis using st by (simp add: max_def)
        qed
        moreover have "contents d2 bn = blk2" using st by simp
        ultimately show "if nwrite2 = 0 then inode_size blk2 i = S0
          else contents d2 bn = blk2 \<and> inode_size blk2 i = max S0 (offset + nwrite2)"
          using pos by simp
      qed
      have "write_loop bn i data len offset s' = Inr (int len, fs', d')"
        using True Continue "1.prems"(1) by (simp add: write_loop_step)
      then show ?thesis
        using "1.IH"[OF True Continue _ "1.prems"(2,3) J'] by simp
    qed
  qed
qed


text \<open>
  C9, as the code has it. For an inode whose block is on the device and a range that
  fits the 32-bit size field: an iteration of the loop that completes adds \<^verbatim>\<open>ncopy\<close> to
  \<^verbatim>\<open>nwrite\<close>, leaves \<^verbatim>\<open>size\<close> at the maximum of its old value and \<open>offset + nwrite\<close>, and
  has written the inode-table block to the device; and when \<^verbatim>\<open>fs_write\<close> returns
  \<open>len > 0\<close>, \<^verbatim>\<open>fs_stat\<close> returns the maximum of the old size and \<open>offset + len\<close>.
\<close>
theorem fs_write_persists_size:
  assumes "disk fs \<noteq> 0" and "n div INODES_PER_BLOCK + 1 < Disk.blocks d"
    and "offset + len < 2 ^ 32"
  shows "(nwrite + ncopy \<le> len \<and>
          write_step (n div INODES_PER_BLOCK + 1) (n mod INODES_PER_BLOCK) data len offset
            (blk, k, nwrite, doff, ncopy, fs, d) = Continue (blk', k', nwrite', doff', ncopy', fs', d') \<longrightarrow>
            nwrite' = nwrite + ncopy \<and>
            inode_size blk' (n mod INODES_PER_BLOCK) =
              max (inode_size blk (n mod INODES_PER_BLOCK)) (offset + nwrite') \<and>
            contents d' (n div INODES_PER_BLOCK + 1) = blk') \<and>
         (0 < len \<and> fs_write fs d n data len offset = Inr (int len, fs'', d'') \<longrightarrow>
            fs_stat fs'' d'' n =
              Inr (int (max (stored_size d n) (offset + len)), d''\<lparr>reads := reads d'' + 1\<rparr>))"
proof (intro conjI impI)
  let ?bn = "n div INODES_PER_BLOCK + 1"
  let ?i = "n mod INODES_PER_BLOCK"
  assume a: "nwrite + ncopy \<le> len \<and>
          write_step ?bn ?i data len offset (blk, k, nwrite, doff, ncopy, fs, d) =
            Continue (blk', k', nwrite', doff', ncopy', fs', d')"
  then have "offset + (nwrite + ncopy) < 2 ^ 32" using assms(3) by simp
  from write_step_size[OF assms(1,2) this conjunct2[OF a]]
  show "nwrite' = nwrite + ncopy"
    "inode_size blk' ?i = max (inode_size blk ?i) (offset + nwrite')"
    "contents d' ?bn = blk'" by simp_all
next
  let ?bn = "n div INODES_PER_BLOCK + 1"
  let ?i = "n mod INODES_PER_BLOCK"
  assume b: "0 < len \<and> fs_write fs d n data len offset = Inr (int len, fs'', d'')"
  let ?blk0 = "contents d ?bn"
  let ?nc = "if len < BLOCK_SIZE then len else BLOCK_SIZE - offset mod BLOCK_SIZE"
  let ?d1 = "d\<lparr>reads := reads d + 1\<rparr>"
  have v: "inode_valid ?blk0 ?i \<noteq> 0"
  proof
    assume "inode_valid ?blk0 ?i = 0"
    then have "fs_write fs d n data len offset = Inr (- 1, fs, ?d1)"
      unfolding fs_write_unfold[OF assms(1,2)] by simp
    with b show False by simp
  qed
  then have wl: "write_loop ?bn ?i data len offset
      (?blk0, offset div BLOCK_SIZE, 0, offset mod BLOCK_SIZE, ?nc, fs, ?d1) = Inr (int len, fs'', d'')"
    using b unfolding fs_write_unfold[OF assms(1,2)] by simp
  have nc: "?nc \<le> len" "0 < ?nc"
    using b BLOCK_SIZE_pos mod_less_divisor[OF BLOCK_SIZE_pos, of offset] by auto
  have J: "case (?blk0, offset div BLOCK_SIZE, 0, offset mod BLOCK_SIZE, ?nc, fs, ?d1) of
     (blk, k, nwrite, doff, ncopy, fs1, dd) \<Rightarrow>
       disk fs1 \<noteq> 0 \<and> ?bn < Disk.blocks dd \<and> nwrite + ncopy \<le> len \<and>
       (nwrite < len \<longrightarrow> 0 < ncopy) \<and> inode_valid blk ?i \<noteq> 0 \<and>
       (if nwrite = 0 then inode_size blk ?i = stored_size d n
        else contents dd ?bn = blk \<and> inode_size blk ?i = max (stored_size d n) (offset + nwrite))"
    unfolding prod.case using assms(1,2) v nc by (simp add: stored_size_def)
  have r: "disk fs'' \<noteq> 0" "?bn < Disk.blocks d''" "inode_valid (contents d'' ?bn) ?i \<noteq> 0"
    "inode_size (contents d'' ?bn) ?i = max (stored_size d n) (offset + len)"
    using write_loop_size_aux[OF wl _ assms(3) J] b by simp_all
  have rd: "disk_read (disk fs'') d'' ?bn =
      (int BLOCK_SIZE, Some (contents d'' ?bn), d''\<lparr>reads := reads d'' + 1\<rparr>)"
    using r(1,2) by (simp add: disk_read_ok)
  have "fs_stat fs'' d'' n = Inr (int (inode_size (contents d'' ?bn) ?i), d''\<lparr>reads := reads d'' + 1\<rparr>)"
    unfolding fs_stat_def Let_def using r(3)
    by (simp only: rd prod.case option.case simp_thms if_True)
  then show "fs_stat fs'' d'' n =
      Inr (int (max (stored_size d n) (offset + len)), d''\<lparr>reads := reads d'' + 1\<rparr>)"
    unfolding r(4) .
qed


lemma write_step_created_reads:
  "write_step 1 0 fake_inode 32 0
     (set_inode_valid zero_block 0 1, 0, 0, 0, 32, mounted_fs 1, created_disk\<lparr>reads := r\<rparr>) =
   Continue (set_inode_size (set_inode_direct (set_inode_valid zero_block 0 1) 0 0 3) 0 32,
     1, 32, 0, 0, written_fs, written_disk\<lparr>reads := r + 1\<rparr>)"
proof -
  let ?blk = "set_inode_valid zero_block 0 1"
  let ?d1 = "created_disk\<lparr>reads := r\<rparr>"
  let ?d2 = "?d1\<lparr>reads := reads ?d1 + 1, writes := writes ?d1 + 1,
         contents := (contents ?d1)(3 := memcpy (contents ?d1 3) 0 fake_inode 0 32)\<rparr>"
  have v: "inode_direct ?blk 0 0 = 0" by (simp add: inode_field_simps)
  have wd: "write_direct (mounted_fs 1) ?d1 ?blk 0 0 0 32 fake_inode 0 =
      Continue (set_inode_direct ?blk 0 0 3, written_fs, ?d2)"
    by (subst write_direct_alloc[OF v find_free_block_mounted])
       (simp_all add: disk_sanity_check_def mounted_fs_simps created_disk_simps BLOCK_SIZE_def
          written_fs_def)
  have wb: "write_block (mounted_fs 1) ?d1 ?blk 0 0 0 32 fake_inode 0 =
      Continue (set_inode_direct ?blk 0 0 3, written_fs, ?d2)"
    by (subst write_block_direct, simp add: POINTERS_PER_INODE_def, rule wd)
  show ?thesis
    by (subst write_step_continue[OF wb])
       (simp add: add64_def sub64_def inode_field_simps POINTERS_PER_INODE_def mounted_fs_simps
          disk_write_def disk_sanity_check_def created_disk_simps written_disk_def
          created_disk_def sfs_disk_simps fun_upd_twist numeral_2_eq_2[symmetric])
qed

lemma fs_write_created_reads:
  "fs_write (mounted_fs 1) (created_disk\<lparr>reads := r\<rparr>) 0 fake_inode 32 0 =
     Inr (32, written_fs, written_disk\<lparr>reads := r + 2\<rparr>)"
proof -
  have u: "fs_write (mounted_fs 1) (created_disk\<lparr>reads := r\<rparr>) 0 fake_inode 32 0 =
      write_loop 1 0 fake_inode 32 0
        (set_inode_valid zero_block 0 1, 0, 0, 0, 32, mounted_fs 1, created_disk\<lparr>reads := r + 1\<rparr>)"
    by (subst fs_write_unfold)
       (simp_all add: created_disk_simps mounted_fs_simps inode_field_simps BLOCK_SIZE_def)
  show ?thesis
    unfolding u
    by (subst write_loop_step, simp, subst write_step_created_reads, simp add: write_loop_done)
qed


lemma write_step_created:
  "write_step 1 0 fake_inode 32 0
     (set_inode_valid zero_block 0 1, 0, 0, 0, 32, mounted_fs 1, created_disk\<lparr>reads := 2\<rparr>) =
   Continue (set_inode_size (set_inode_direct (set_inode_valid zero_block 0 1) 0 0 3) 0 32,
     1, 32, 0, 0, written_fs, written_disk)"
proof -
  have b: "written_disk\<lparr>reads := 2 + 1\<rparr> = written_disk" by (simp add: written_disk_def)
  show ?thesis using write_step_created_reads [of 2] unfolding b .
qed

lemma fs_write_created:
  "fs_write (mounted_fs 1) created_disk 0 fake_inode 32 0 = Inr (32, written_fs, written_disk)"
proof -
  have a: "created_disk\<lparr>reads := 1\<rparr> = created_disk" by (simp add: created_disk_def)
  have b: "written_disk\<lparr>reads := 1 + 2\<rparr> = written_disk" by (simp add: written_disk_def)
  show ?thesis using fs_write_created_reads [of 1] unfolding a b .
qed

lemma fs_stat_unfold:
  assumes "disk fs \<noteq> 0" "n div INODES_PER_BLOCK + 1 < Disk.blocks d"
  shows "fs_stat fs d n =
    (if inode_valid (contents d (n div INODES_PER_BLOCK + 1)) (n mod INODES_PER_BLOCK) \<noteq> 0
     then Inr (int (inode_size (contents d (n div INODES_PER_BLOCK + 1)) (n mod INODES_PER_BLOCK)),
       d\<lparr>reads := reads d + 1\<rparr>)
     else Inr (- 1, d\<lparr>reads := reads d + 1\<rparr>))"
proof -
  have rd: "disk_read (disk fs) d (n div INODES_PER_BLOCK + 1) =
      (int BLOCK_SIZE, Some (contents d (n div INODES_PER_BLOCK + 1)), d\<lparr>reads := reads d + 1\<rparr>)"
    using assms by (simp add: disk_read_ok)
  show ?thesis
    unfolding fs_stat_def Let_def by (simp only: rd prod.case option.case)
qed

lemma written_disk_simps:
  "Disk.blocks written_disk = 20" "reads written_disk = 3" "writes written_disk = 3"
  "contents written_disk (Suc 0) =
     set_inode_size (set_inode_direct (set_inode_valid zero_block 0 1) 0 0 3) 0 32"
  "contents written_disk 3 = memcpy zero_block 0 fake_inode 0 32"
  "disk written_fs = 1"
  "free_blocks written_fs = Some ((replicate 20 True)[0 := False, 1 := False, 2 := False, 3 := False])"
  "SuperBlock.blocks (meta_data written_fs) = 20"
  by (simp_all add: written_disk_def written_fs_def created_disk_def mounted_fs_simps
      sfs_disk_simps)

theorem fs_write_persists_size_witness:
  "inode_size (set_inode_size (set_inode_direct (set_inode_valid zero_block 0 1) 0 0 3) 0 32) 0 =
     max (inode_size (set_inode_valid zero_block 0 1) 0) (0 + 32) \<and>
   contents written_disk 1 =
     set_inode_size (set_inode_direct (set_inode_valid zero_block 0 1) 0 0 3) 0 32 \<and>
   fs_write (mounted_fs 1) created_disk 0 fake_inode 32 0 = Inr (32, written_fs, written_disk) \<and>
   fs_stat written_fs written_disk 0 = Inr (32, written_disk\<lparr>reads := 4\<rparr>)"
proof -
  have st: "0 + 32 \<le> (32::nat) \<and>
      write_step (0 div INODES_PER_BLOCK + 1) (0 mod INODES_PER_BLOCK) fake_inode 32 0
       (set_inode_valid zero_block 0 1, 0, 0, 0, 32, mounted_fs 1, created_disk\<lparr>reads := 2\<rparr>) =
      Continue (set_inode_size (set_inode_direct (set_inode_valid zero_block 0 1) 0 0 3) 0 32,
        1, 32, 0, 0, written_fs, written_disk)"
    using write_step_created by simp
  have h: "disk (mounted_fs 1) \<noteq> 0"
    "0 div INODES_PER_BLOCK + 1 < Disk.blocks (created_disk\<lparr>reads := 2\<rparr>)"
    "0 div INODES_PER_BLOCK + 1 < Disk.blocks created_disk" "(0::nat) + 32 < 2 ^ 32"
    by (simp_all add: mounted_fs_simps created_disk_simps)
  have w: "0 < (32::nat) \<and>
      fs_write (mounted_fs 1) created_disk 0 fake_inode 32 0 = Inr (int 32, written_fs, written_disk)"
    using fs_write_created by simp
  have s0: "stored_size created_disk 0 = 0"
    by (simp add: stored_size_def created_disk_simps inode_field_simps)
  from fs_write_persists_size [OF h(1) h(2) h(4), THEN conjunct1, rule_format, OF st]
    fs_write_persists_size [OF h(1) h(3) h(4), THEN conjunct2, rule_format, OF w]
    fs_write_created s0
  show ?thesis by (simp add: written_disk_simps)
qed

text \<open>
  C9 as stated fails for an empty write: \<^verbatim>\<open>fs_write\<close> of 0 bytes at offset 100 to the new
  inode 0 returns 0, and \<^verbatim>\<open>fs_stat\<close> still returns 0, not 100.
\<close>
theorem fs_write_empty_counterexample:
  "stored_size created_disk 0 = 0 \<and>
   fs_write (mounted_fs 1) created_disk 0 zero_block 0 100 =
     Inr (0, mounted_fs 1, created_disk\<lparr>reads := 2\<rparr>) \<and>
   fs_stat (mounted_fs 1) (created_disk\<lparr>reads := 2\<rparr>) 0 = Inr (0, created_disk\<lparr>reads := 3\<rparr>)"
proof (intro conjI)
  show "stored_size created_disk 0 = 0"
    by (simp add: stored_size_def created_disk_simps inode_field_simps)
  show "fs_write (mounted_fs 1) created_disk 0 zero_block 0 100 =
     Inr (0, mounted_fs 1, created_disk\<lparr>reads := 2\<rparr>)"
    by (subst fs_write_unfold)
       (simp_all add: created_disk_simps mounted_fs_simps inode_field_simps write_loop_done
          numeral_2_eq_2[symmetric])
  show "fs_stat (mounted_fs 1) (created_disk\<lparr>reads := 2\<rparr>) 0 = Inr (0, created_disk\<lparr>reads := 3\<rparr>)"
    by (subst fs_stat_unfold)
       (simp_all add: created_disk_simps mounted_fs_simps inode_field_simps)
qed



subsection \<open>Inode numbers past the inode table\<close>

lemma fake_inode_outside: "32 \<le> j \<Longrightarrow> fake_inode j = 0"
  by (simp add: fake_inode_def block_field_defs put32_def zero_block_def)

lemma memcpy_fake_inode: "memcpy zero_block 0 fake_inode 0 32 = fake_inode"
proof (rule ext)
  fix j
  show "memcpy zero_block 0 fake_inode 0 32 j = fake_inode j"
    by (cases "j < 32") (simp_all add: memcpy_def fake_inode_outside zero_block_def)
qed

lemma fake_inode_fields:
  "inode_valid fake_inode 0 = 1" "inode_size fake_inode 0 = 16"
  "inode_direct fake_inode 0 k = (if k = 0 then 3 else 0)" "inode_indirect fake_inode 0 = 0"
  by (simp_all add: fake_inode_def inode_field_simps POINTERS_PER_INODE_def)

lemma written_disk_block3: "contents written_disk 3 = fake_inode"
  by (simp add: written_disk_simps memcpy_fake_inode)

lemma upt_PPI: "[0..<POINTERS_PER_INODE] = [0, 1, 2, 3, 4]"
  unfolding POINTERS_PER_INODE_def by (rule upt_0_5)

lemma remove_dp_loop_fake:
  "remove_dp_loop 0 [0..<POINTERS_PER_INODE] fake_inode
     (Some ((replicate 20 True)[0 := False, 1 := False, 2 := False, 3 := False])) =
   Inr (set_inode_direct fake_inode 0 0 0,
     Some ((replicate 20 True)[0 := False, 1 := False, 2 := False, 3 := False, 3 := True]))"
  unfolding upt_PPI
  by (simp add: fake_inode_fields inode_field_simps set_free_def)

lemma fs_remove_written:
  "fs_remove written_fs (written_disk\<lparr>reads := r\<rparr>) 256 =
     Inr (True, removed_fs, removed_disk\<lparr>reads := r + 1\<rparr>)"
proof -
  let ?d = "written_disk\<lparr>reads := r\<rparr>"
  let ?d1 = "?d\<lparr>reads := reads ?d + 1\<rparr>"
  let ?final = "set_inode_valid (set_inode_size (set_inode_direct fake_inode 0 0 0) 0 0) 0 0"
  have a: "256 div INODES_PER_BLOCK + 1 = 3" "256 mod INODES_PER_BLOCK = 0"
    by (simp_all add: INODES_PER_BLOCK_def)
  have rd: "disk_read (disk written_fs) ?d 3 = (int BLOCK_SIZE, Some fake_inode, ?d1)"
    by (subst disk_read_ok) (simp_all add: written_disk_simps(1,2,3,6) written_disk_block3)
  have v: "inode_valid fake_inode 0 \<noteq> 0" by (simp add: fake_inode_fields)
  have ri: "remove_indirect (disk written_fs) 0 (set_inode_direct fake_inode 0 0 0)
      (Some ((replicate 20 True)[0 := False, 1 := False, 2 := False, 3 := False, 3 := True])) ?d1 =
    Inr (set_inode_direct fake_inode 0 0 0,
      Some ((replicate 20 True)[0 := False, 1 := False, 2 := False, 3 := False, 3 := True]), ?d1)"
    by (rule remove_indirect_none)
       (simp add: inode_field_simps fake_inode_fields POINTERS_PER_INODE_def)
  have wr: "disk_write (disk written_fs) ?d1 3 ?final =
      (int BLOCK_SIZE, ?d1\<lparr>writes := writes ?d1 + 1, contents := (contents ?d1)(3 := ?final)\<rparr>)"
    by (rule disk_write_ok) (simp_all add: written_disk_simps)
  have "fs_remove written_fs ?d 256 = Inr (True, written_fs\<lparr>free_blocks :=
      Some ((replicate 20 True)[0 := False, 1 := False, 2 := False, 3 := False, 3 := True])\<rparr>,
      ?d1\<lparr>writes := writes ?d1 + 1, contents := (contents ?d1)(3 := ?final)\<rparr>)"
    unfolding fs_remove_def Let_def a using v
    by (simp only: rd prod.case option.case simp_thms if_False written_disk_simps(7)
        remove_dp_loop_fake sum.case ri wr)
  then show ?thesis
    by (simp add: removed_fs_def removed_disk_def written_fs_def written_disk_simps)
qed


lemma fs_create_mounted:
  "fs_create (mounted_fs 1) ((sfs_disk 20)\<lparr>reads := r\<rparr>) = Inr (0, created_disk\<lparr>reads := r + 1\<rparr>)"
proof -
  let ?d = "(sfs_disk 20)\<lparr>reads := r\<rparr>"
  have "create_block_loop 1 ([] @ 1 # [Suc 1..<2 + 1]) ?d 0 =
     Inr (0 + int (length ([]::nat list) * INODES_PER_BLOCK + 0),
       ?d\<lparr>reads := reads ?d + length ([]::nat list) + 1, writes := writes ?d + 1,
         contents := (contents ?d)(1 := set_inode_valid (contents ?d 1) 0 1)\<rparr>)"
    by (rule create_block_loop_found)
       (simp_all add: sfs_disk_simps INODES_PER_BLOCK_def inode_field_simps)
  moreover have "[1..<2 + 1] = [] @ 1 # [Suc 1..<2 + 1]" by (simp add: upt_conv_Cons)
  ultimately show ?thesis
    unfolding fs_create_def mounted_fs_simps
    by (simp add: created_disk_def sfs_disk_simps)
qed

lemma slot_256: "256 div INODES_PER_BLOCK = 2" "256 mod INODES_PER_BLOCK = 0"
  by (simp_all add: INODES_PER_BLOCK_def)

lemma fs_stat_written_256:
  "fs_stat written_fs written_disk 256 = Inr (16, written_disk\<lparr>reads := 4\<rparr>)"
  by (subst fs_stat_unfold)
     (simp_all add: slot_256 written_disk_simps(1,2,3,6) written_disk_block3 fake_inode_fields)

lemma fs_read_written_256:
  "fs_read written_fs written_disk 256 zero_block 10 0 =
     Inr (10, memcpy zero_block 0 fake_inode 0 10, written_disk\<lparr>reads := 5\<rparr>)"
proof -
  let ?d1 = "written_disk\<lparr>reads := reads written_disk + 1\<rparr>"
  have sz: "stored_size written_disk 256 = 16"
    by (simp add: stored_size_def slot_256 written_disk_block3 fake_inode_fields)
  have u: "fs_read written_fs written_disk 256 zero_block 10 0 =
      read_loop 1 fake_inode 0 10 (0, 0, 0, 10, zero_block, ?d1)"
    by (subst fs_read_unfold)
       (simp_all add: slot_256 written_disk_simps(1,2,3,6) written_disk_block3 sz add64_def
          BLOCK_SIZE_def)
  have f: "read_fetch 1 fake_inode 0 0 ?d1 =
      Continue (contents ?d1 (inode_direct fake_inode 0 0), ?d1\<lparr>reads := reads ?d1 + 1\<rparr>)"
    by (rule read_fetch_direct_ok)
       (simp_all add: POINTERS_PER_INODE_def fake_inode_fields written_disk_simps(1,2,3,6)
          disk_sanity_check_def)
  have f': "read_fetch 1 fake_inode 0 0 ?d1 = Continue (fake_inode, written_disk\<lparr>reads := 5\<rparr>)"
    unfolding f by (simp add: fake_inode_fields written_disk_simps(1,2,3,6) written_disk_block3)
  have st: "read_step 1 fake_inode 0 10 (0, 0, 0, 10, zero_block, ?d1) =
      Continue (0 + 1, 0 + 10, 0,
        (if sub64 10 (0 + 10) > BLOCK_SIZE then BLOCK_SIZE else sub64 10 (0 + 10)),
        memcpy zero_block 0 fake_inode 0 10, written_disk\<lparr>reads := 5\<rparr>)"
    by (rule read_step_copy[OF f']) (simp add: BLOCK_SIZE_def)
  show ?thesis
    unfolding u
    by (subst read_loop_step, simp, subst st, simp add: read_loop_done)
qed

lemma fs_write_written_256:
  "fs_write written_fs written_disk 256 zero_block 4 0 =
     Inr (4, written_fs, written_disk\<lparr>reads := 5, writes := 5\<rparr>)"
proof -
  let ?d1 = "written_disk\<lparr>reads := reads written_disk + 1\<rparr>"
  let ?d2 = "?d1\<lparr>reads := reads ?d1 + 1, writes := writes ?d1 + 1,
         contents := (contents ?d1)(inode_direct fake_inode 0 0 :=
           memcpy (contents ?d1 (inode_direct fake_inode 0 0)) 0 zero_block 0 4)\<rparr>"
  have u: "fs_write written_fs written_disk 256 zero_block 4 0 =
      write_loop 3 0 zero_block 4 0 (fake_inode, 0, 0, 0, 4, written_fs, ?d1)"
    by (subst fs_write_unfold)
       (simp_all add: slot_256 written_disk_simps(1,2,3,6) written_disk_block3 fake_inode_fields
          BLOCK_SIZE_def)
  have wd: "write_direct written_fs ?d1 fake_inode 0 0 0 4 zero_block 0 = Continue (fake_inode, written_fs, ?d2)"
    by (subst write_direct_existing)
       (simp_all add: fake_inode_fields disk_sanity_check_def written_disk_simps(1,2,3,6)
          BLOCK_SIZE_def)
  have wb: "write_block written_fs ?d1 fake_inode 0 0 0 4 zero_block 0 = Continue (fake_inode, written_fs, ?d2)"
    by (subst write_block_direct, simp add: POINTERS_PER_INODE_def, rule wd)
  have st: "write_step 3 0 zero_block 4 0 (fake_inode, 0, 0, 0, 4, written_fs, ?d1) =
      Continue (fake_inode, 1, 4, 0, 0, written_fs, written_disk\<lparr>reads := 5, writes := 5\<rparr>)"
    by (subst write_step_continue[OF wb])
       (simp add: add64_def sub64_def fake_inode_fields written_disk_simps(1,2,3,6)
          disk_write_def disk_sanity_check_def
          fun_upd_idem[of "contents written_disk" 3 fake_inode, OF written_disk_block3])
  show ?thesis
    unfolding u
    by (subst write_loop_step, simp, subst st, simp add: write_loop_done)
qed

text \<open>
  C10. The mounted filesystem has 256 inodes and 20 blocks; inode number 256 is
  addressed in block 3, which is the data block of inode 0 and holds the bytes that
  were written to the file. None of the four operations returns its failure value
  there: \<^verbatim>\<open>fs_stat\<close> returns the 16 found in the bytes, \<^verbatim>\<open>fs_read\<close> returns 10 bytes,
  \<^verbatim>\<open>fs_write\<close> returns 4, and \<^verbatim>\<open>fs_remove\<close> returns true, rewrites the data block and
  marks block 3 available.
\<close>
theorem inode_number_unchecked:
  "inodes (meta_data written_fs) \<le> 256 \<and>
   256 div INODES_PER_BLOCK + 1 < SuperBlock.blocks (meta_data written_fs) \<and>
   inode_direct (contents written_disk 1) 0 0 = 256 div INODES_PER_BLOCK + 1 \<and>
   fs_stat written_fs written_disk 256 = Inr (16, written_disk\<lparr>reads := 4\<rparr>) \<and>
   fs_read written_fs written_disk 256 zero_block 10 0 =
     Inr (10, memcpy zero_block 0 fake_inode 0 10, written_disk\<lparr>reads := 5\<rparr>) \<and>
   fs_write written_fs written_disk 256 zero_block 4 0 =
     Inr (4, written_fs, written_disk\<lparr>reads := 5, writes := 5\<rparr>) \<and>
   fs_remove written_fs written_disk 256 = Inr (True, removed_fs, removed_disk\<lparr>reads := 4\<rparr>)"
proof -
  have "written_disk\<lparr>reads := 3\<rparr> = written_disk" by (simp add: written_disk_def)
  then have "fs_remove written_fs written_disk 256 = Inr (True, removed_fs, removed_disk\<lparr>reads := 4\<rparr>)"
    using fs_remove_written[of 3] by simp
  moreover have "inodes (meta_data written_fs) \<le> 256"
    "256 div INODES_PER_BLOCK + 1 < SuperBlock.blocks (meta_data written_fs)"
    "inode_direct (contents written_disk 1) 0 0 = 256 div INODES_PER_BLOCK + 1"
    by (simp_all add: written_fs_def mounted_fs_simps slot_256 written_disk_simps inode_field_simps)
  ultimately show ?thesis
    using fs_stat_written_256 fs_read_written_256 fs_write_written_256 by simp
qed

text \<open>
  C2. After mount, create, a write of 32 bytes to inode 0 and \<^verbatim>\<open>fs_remove\<close> of inode
  number 256, inode 0 is valid and owns block 3, and the bitmap marks block 3
  available.
\<close>
theorem bitmap_disjoint_violation:
  "fs_mount unmounted_fs 1 (sfs_disk 20) = Inr (True, mounted_fs 1, (sfs_disk 20)\<lparr>reads := 3\<rparr>) \<and>
   fs_create (mounted_fs 1) ((sfs_disk 20)\<lparr>reads := 3\<rparr>) = Inr (0, created_disk\<lparr>reads := 4\<rparr>) \<and>
   fs_write (mounted_fs 1) (created_disk\<lparr>reads := 4\<rparr>) 0 fake_inode 32 0 =
     Inr (32, written_fs, written_disk\<lparr>reads := 6\<rparr>) \<and>
   fs_remove written_fs (written_disk\<lparr>reads := 6\<rparr>) 256 = Inr (True, removed_fs, removed_disk) \<and>
   slot_valid removed_disk 0 \<and> 3 \<in> set (owned_blocks removed_disk 0) \<and>
   free_blocks removed_fs =
     Some ((replicate 20 True)[0 := False, 1 := False, 2 := False, 3 := False, 3 := True]) \<and>
   ((replicate 20 True)[0 := False, 1 := False, 2 := False, 3 := False, 3 := True]) ! 3"
proof -
  have m: "fs_mount unmounted_fs 1 (sfs_disk 20) = Inr (True, mounted_fs 1, (sfs_disk 20)\<lparr>reads := 3\<rparr>)"
    using fs_mount_sfs_disk [of 1 unmounted_fs 0]
    by (simp add: sfs_disk_reads) (simp add: unmounted_fs_def)
  have r: "fs_remove written_fs (written_disk\<lparr>reads := 6\<rparr>) 256 = Inr (True, removed_fs, removed_disk)"
    using fs_remove_written[of 6] by (simp add: removed_disk_def)
  have c1: "contents removed_disk (Suc 0) =
      set_inode_size (set_inode_direct (set_inode_valid zero_block 0 1) 0 0 3) 0 32"
    by (simp add: removed_disk_def written_disk_simps)
  have v: "slot_valid removed_disk 0"
    by (simp add: slot_valid_def c1 inode_field_simps)
  have o: "3 \<in> set (owned_blocks removed_disk 0)"
    unfolding set_owned_blocks
    by (simp add: c1 inode_field_simps POINTERS_PER_INODE_def)
  show ?thesis
    using m fs_create_mounted[of 3] fs_write_created_reads[of 4] r v o
    by (simp add: removed_fs_def)
qed



subsection \<open>The bitmap that fs_initialize_free_block_bitmap builds\<close>

text \<open>
  Each of the four nested loops clears exactly the flags of the blocks it visits, as long as
  every pointer it meets is inside the bitmap; the indirect blocks have to be readable, as a
  failed read ends the scan early with what was marked so far. For an inode table that is
  on the device and whose pointers are inside the bitmap, the blocks left unavailable are
  then block 0, the inode-table blocks and the blocks that valid inodes point to, and no
  others. The last lemma evaluates this on the device with one file.
\<close>

lemma bitmap_dp_loop_marks:
  assumes "\<forall>k\<in>set dps. inode_direct blk i k \<noteq> 0 \<longrightarrow> inode_direct blk i k < length a"
  shows "\<exists>a'. bitmap_dp_loop blk i dps (Some a) = Inr (Some a') \<and> length a' = length a \<and>
     (\<forall>b<length a. a' ! b \<longleftrightarrow>
        a ! b \<and> \<not> (\<exists>k\<in>set dps. inode_direct blk i k \<noteq> 0 \<and> b = inode_direct blk i k))"
  using assms
proof (induction dps arbitrary: a)
  case Nil
  show ?case by simp
next
  case (Cons dp dps)
  show ?case
  proof (cases "inode_direct blk i dp = 0")
    case True
    from Cons.IH[of a] Cons.prems obtain a' where
      "bitmap_dp_loop blk i dps (Some a) = Inr (Some a')" "length a' = length a"
      "\<forall>b<length a. a' ! b \<longleftrightarrow>
        a ! b \<and> \<not> (\<exists>k\<in>set dps. inode_direct blk i k \<noteq> 0 \<and> b = inode_direct blk i k)"
      by auto
    then show ?thesis using True by auto
  next
    case False
    let ?ptr = "inode_direct blk i dp"
    let ?a1 = "a[?ptr := False]"
    have ptr: "?ptr < length a" using False Cons.prems by simp
    from Cons.IH[of ?a1] Cons.prems obtain a' where
      r: "bitmap_dp_loop blk i dps (Some ?a1) = Inr (Some a')" "length a' = length ?a1"
      "\<forall>b<length ?a1. a' ! b \<longleftrightarrow>
        ?a1 ! b \<and> \<not> (\<exists>k\<in>set dps. inode_direct blk i k \<noteq> 0 \<and> b = inode_direct blk i k)"
      by auto
    have "bitmap_dp_loop blk i (dp # dps) (Some a) = Inr (Some a')"
      using False ptr r(1) by (simp add: set_free_def)
    moreover have "\<forall>b<length a. a' ! b \<longleftrightarrow>
        a ! b \<and> \<not> (\<exists>k\<in>set (dp # dps). inode_direct blk i k \<noteq> 0 \<and> b = inode_direct blk i k)"
    proof (intro allI impI)
      fix b assume b: "b < length a"
      have "?a1 ! b \<longleftrightarrow> a ! b \<and> b \<noteq> ?ptr" using b by (cases "b = ?ptr") simp_all
      then show "a' ! b \<longleftrightarrow>
        a ! b \<and> \<not> (\<exists>k\<in>set (dp # dps). inode_direct blk i k \<noteq> 0 \<and> b = inode_direct blk i k)"
        using r(3) b False by auto
    qed
    ultimately show ?thesis using r(2) by auto
  qed
qed

lemma bitmap_p_loop_marks:
  assumes "\<forall>k\<in>set ks. pointers ind k \<noteq> 0 \<longrightarrow> pointers ind k < length a"
  shows "\<exists>a'. bitmap_p_loop ind ks (Some a) = Inr (Some a') \<and> length a' = length a \<and>
     (\<forall>b<length a. a' ! b \<longleftrightarrow>
        a ! b \<and> \<not> (\<exists>k\<in>set ks. pointers ind k \<noteq> 0 \<and> b = pointers ind k))"
  using assms
proof (induction ks arbitrary: a)
  case Nil
  show ?case by simp
next
  case (Cons k0 ks)
  show ?case
  proof (cases "pointers ind k0 = 0")
    case True
    from Cons.IH[of a] Cons.prems obtain a' where
      "bitmap_p_loop ind ks (Some a) = Inr (Some a')" "length a' = length a"
      "\<forall>b<length a. a' ! b \<longleftrightarrow>
        a ! b \<and> \<not> (\<exists>k\<in>set ks. pointers ind k \<noteq> 0 \<and> b = pointers ind k)"
      by auto
    then show ?thesis using True by auto
  next
    case False
    let ?ptr = "pointers ind k0"
    let ?a1 = "a[?ptr := False]"
    have ptr: "?ptr < length a" using False Cons.prems by simp
    from Cons.IH[of ?a1] Cons.prems obtain a' where
      r: "bitmap_p_loop ind ks (Some ?a1) = Inr (Some a')" "length a' = length ?a1"
      "\<forall>b<length ?a1. a' ! b \<longleftrightarrow>
        ?a1 ! b \<and> \<not> (\<exists>k\<in>set ks. pointers ind k \<noteq> 0 \<and> b = pointers ind k)"
      by auto
    have "bitmap_p_loop ind (k0 # ks) (Some a) = Inr (Some a')"
      using False ptr r(1) by (simp add: set_free_def)
    moreover have "\<forall>b<length a. a' ! b \<longleftrightarrow>
        a ! b \<and> \<not> (\<exists>k\<in>set (k0 # ks). pointers ind k \<noteq> 0 \<and> b = pointers ind k)"
    proof (intro allI impI)
      fix b assume b: "b < length a"
      have "?a1 ! b \<longleftrightarrow> a ! b \<and> b \<noteq> ?ptr" using b by (cases "b = ?ptr") simp_all
      then show "a' ! b \<longleftrightarrow>
        a ! b \<and> \<not> (\<exists>k\<in>set (k0 # ks). pointers ind k \<noteq> 0 \<and> b = pointers ind k)"
        using r(3) b False by auto
    qed
    ultimately show ?thesis using r(2) by auto
  qed
qed

lemma owned_blocks_inode_owned:
  "owned_blocks d n =
     inode_owned (contents d) (contents d (n div INODES_PER_BLOCK + 1)) (n mod INODES_PER_BLOCK)"
  by (simp add: owned_blocks_def inode_owned_def Let_def)

lemma bitmap_inode_step_marks:
  assumes p: "p \<noteq> 0"
    and ind: "inode_indirect blk i \<noteq> 0 \<longrightarrow> inode_indirect blk i < Disk.blocks d"
    and own: "\<forall>b\<in>set (inode_owned (contents d) blk i). b < length a"
    and valid: "inode_valid blk i \<noteq> 0"
    and rest: "\<And>a1 r1. length a1 = length a \<Longrightarrow>
        (\<forall>b<length a. a1 ! b \<longleftrightarrow> a ! b \<and> b \<notin> set (inode_owned (contents d) blk i)) \<Longrightarrow>
        Q (bitmap_inode_loop p blk is (Some a1) (d\<lparr>reads := r1\<rparr>))"
  shows "Q (bitmap_inode_loop p blk (i # is) (Some a) d)"
proof -
  have dp_own: "\<forall>k\<in>set [0..<POINTERS_PER_INODE].
      inode_direct blk i k \<noteq> 0 \<longrightarrow> inode_direct blk i k < length a"
    using own by (auto simp: inode_owned_def)
  from bitmap_dp_loop_marks[OF dp_own] obtain a1 where
    a1: "bitmap_dp_loop blk i [0..<POINTERS_PER_INODE] (Some a) = Inr (Some a1)"
      "length a1 = length a"
      "\<forall>b<length a. a1 ! b \<longleftrightarrow> a ! b \<and>
         \<not> (\<exists>k\<in>set [0..<POINTERS_PER_INODE]. inode_direct blk i k \<noteq> 0 \<and> b = inode_direct blk i k)"
    by blast
  show ?thesis
  proof (cases "inode_indirect blk i = 0")
    case True
    have e: "bitmap_inode_loop p blk (i # is) (Some a) d =
        bitmap_inode_loop p blk is (Some a1) (d\<lparr>reads := reads d\<rparr>)"
      using valid a1(1) True by simp
    have "\<forall>b<length a. a1 ! b \<longleftrightarrow> a ! b \<and> b \<notin> set (inode_owned (contents d) blk i)"
      using a1(3) True by (auto simp: inode_owned_def)
    from rest[OF a1(2) this] show ?thesis unfolding e .
  next
    case False
    let ?ip = "inode_indirect blk i"
    let ?ind = "contents d ?ip"
    have ip: "?ip < length a1" "?ip < Disk.blocks d"
      using False own ind a1(2) by (auto simp: inode_owned_def)
    let ?a2 = "a1[?ip := False]"
    have p_own: "\<forall>k\<in>set [0..<POINTERS_PER_BLOCK].
        pointers ?ind k \<noteq> 0 \<longrightarrow> pointers ?ind k < length ?a2"
      using own False a1(2) by (auto simp: inode_owned_def)
    from bitmap_p_loop_marks[OF p_own] obtain a3 where
      a3: "bitmap_p_loop ?ind [0..<POINTERS_PER_BLOCK] (Some ?a2) = Inr (Some a3)"
        "length a3 = length ?a2"
        "\<forall>b<length ?a2. a3 ! b \<longleftrightarrow> ?a2 ! b \<and>
           \<not> (\<exists>k\<in>set [0..<POINTERS_PER_BLOCK]. pointers ?ind k \<noteq> 0 \<and> b = pointers ?ind k)"
      by blast
    have e: "bitmap_inode_loop p blk (i # is) (Some a) d =
        bitmap_inode_loop p blk is (Some a3) (d\<lparr>reads := reads d + 1\<rparr>)"
      using valid a1(1) False ip a3(1)
      by (simp add: set_free_def disk_read_ok[OF p ip(2)] DISK_FAILURE_def BLOCK_SIZE_def)
    have len: "length a3 = length a" using a3(2) a1(2) by simp
    have "\<forall>b<length a. a3 ! b \<longleftrightarrow> a ! b \<and> b \<notin> set (inode_owned (contents d) blk i)"
    proof (intro allI impI)
      fix b assume b: "b < length a"
      have "?a2 ! b \<longleftrightarrow> a1 ! b \<and> b \<noteq> ?ip"
        using b a1(2) by (cases "b = ?ip") simp_all
      then show "a3 ! b \<longleftrightarrow> a ! b \<and> b \<notin> set (inode_owned (contents d) blk i)"
        using a3(3) a1(3) a1(2) b False by (auto simp: inode_owned_def)
    qed
    from rest[OF len this] show ?thesis unfolding e .
  qed
qed

lemma bitmap_inode_loop_marks:
  assumes "p \<noteq> 0"
    and "\<forall>i\<in>set is. inode_valid blk i \<noteq> 0 \<longrightarrow>
          (inode_indirect blk i \<noteq> 0 \<longrightarrow> inode_indirect blk i < Disk.blocks d) \<and>
          (\<forall>b\<in>set (inode_owned (contents d) blk i). b < length a)"
  shows "\<exists>a' r. bitmap_inode_loop p blk is (Some a) d = Continue (Some a', d\<lparr>reads := r\<rparr>) \<and>
     length a' = length a \<and>
     (\<forall>b<length a. a' ! b \<longleftrightarrow>
        a ! b \<and> \<not> (\<exists>i\<in>set is. inode_valid blk i \<noteq> 0 \<and> b \<in> set (inode_owned (contents d) blk i)))"
  using assms
proof (induction "is" arbitrary: a d)
  case Nil
  have "bitmap_inode_loop p blk [] (Some a) d = Continue (Some a, d\<lparr>reads := reads d\<rparr>)" by simp
  then show ?case by (metis empty_iff list.set(1))
next
  case (Cons i "is")
  show ?case
  proof (cases "inode_valid blk i = 0")
    case True
    from Cons.IH[OF Cons.prems(1), of d a] Cons.prems(2) obtain a' r where
      "bitmap_inode_loop p blk is (Some a) d = Continue (Some a', d\<lparr>reads := r\<rparr>)"
      "length a' = length a"
      "\<forall>b<length a. a' ! b \<longleftrightarrow>
        a ! b \<and> \<not> (\<exists>i\<in>set is. inode_valid blk i \<noteq> 0 \<and> b \<in> set (inode_owned (contents d) blk i))"
      by auto
    then show ?thesis using True by auto
  next
    case False
    show ?thesis
    proof (rule bitmap_inode_step_marks[OF Cons.prems(1) _ _ False])
      show "inode_indirect blk i \<noteq> 0 \<longrightarrow> inode_indirect blk i < Disk.blocks d"
        using Cons.prems(2) False by simp
      show "\<forall>b\<in>set (inode_owned (contents d) blk i). b < length a"
        using Cons.prems(2) False by simp
    next
      fix a1 r1
      assume len: "length a1 = length a"
        and a1: "\<forall>b<length a. a1 ! b \<longleftrightarrow> a ! b \<and> b \<notin> set (inode_owned (contents d) blk i)"
      have pre: "\<forall>i\<in>set is. inode_valid blk i \<noteq> 0 \<longrightarrow>
          (inode_indirect blk i \<noteq> 0 \<longrightarrow> inode_indirect blk i < Disk.blocks (d\<lparr>reads := r1\<rparr>)) \<and>
          (\<forall>b\<in>set (inode_owned (contents (d\<lparr>reads := r1\<rparr>)) blk i). b < length a1)"
        using Cons.prems(2) len by simp
      from Cons.IH[OF Cons.prems(1) pre] obtain a' r where
        r: "bitmap_inode_loop p blk is (Some a1) (d\<lparr>reads := r1\<rparr>) = Continue (Some a', d\<lparr>reads := r\<rparr>)"
        "length a' = length a1"
        "\<forall>b<length a1. a' ! b \<longleftrightarrow>
          a1 ! b \<and> \<not> (\<exists>i\<in>set is. inode_valid blk i \<noteq> 0 \<and> b \<in> set (inode_owned (contents d) blk i))"
        by auto
      have "\<forall>b<length a. a' ! b \<longleftrightarrow>
          a ! b \<and> \<not> (\<exists>j\<in>set (i # is). inode_valid blk j \<noteq> 0 \<and> b \<in> set (inode_owned (contents d) blk j))"
        using r(3) a1 len False by auto
      then show "\<exists>a' r. bitmap_inode_loop p blk is (Some a1) (d\<lparr>reads := r1\<rparr>) =
            Continue (Some a', d\<lparr>reads := r\<rparr>) \<and> length a' = length a \<and>
          (\<forall>b<length a. a' ! b \<longleftrightarrow>
            a ! b \<and> \<not> (\<exists>j\<in>set (i # is). inode_valid blk j \<noteq> 0 \<and> b \<in> set (inode_owned (contents d) blk j)))"
        using r(1) r(2) len by auto
    qed
  qed
qed

lemma bitmap_block_loop_marks:
  assumes "p \<noteq> 0"
    and "\<forall>x\<in>set bs. x < Disk.blocks d \<and> x < length a \<and>
          (\<forall>i<INODES_PER_BLOCK. inode_valid (contents d x) i \<noteq> 0 \<longrightarrow>
             (inode_indirect (contents d x) i \<noteq> 0 \<longrightarrow>
                inode_indirect (contents d x) i < Disk.blocks d) \<and>
             (\<forall>b\<in>set (inode_owned (contents d) (contents d x) i). b < length a))"
  shows "\<exists>a' r. bitmap_block_loop p bs (Some a) d = Inr (Some a', d\<lparr>reads := r\<rparr>) \<and>
     length a' = length a \<and>
     (\<forall>b<length a. a' ! b \<longleftrightarrow>
        a ! b \<and> b \<notin> set bs \<and>
        \<not> (\<exists>x\<in>set bs. \<exists>i<INODES_PER_BLOCK. inode_valid (contents d x) i \<noteq> 0 \<and>
              b \<in> set (inode_owned (contents d) (contents d x) i)))"
  using assms
proof (induction bs arbitrary: a d)
  case Nil
  have "bitmap_block_loop p [] (Some a) d = Inr (Some a, d\<lparr>reads := reads d\<rparr>)" by simp
  then show ?case by (metis empty_iff list.set(1))
next
  case (Cons x bs)
  let ?blk = "contents d x"
  let ?d1 = "d\<lparr>reads := reads d + 1\<rparr>"
  have x: "x < Disk.blocks d" "x < length a" using Cons.prems(2) by simp_all
  have pre1: "\<forall>i\<in>set [0..<INODES_PER_BLOCK]. inode_valid ?blk i \<noteq> 0 \<longrightarrow>
          (inode_indirect ?blk i \<noteq> 0 \<longrightarrow> inode_indirect ?blk i < Disk.blocks ?d1) \<and>
          (\<forall>b\<in>set (inode_owned (contents ?d1) ?blk i). b < length a)"
    using Cons.prems(2) by simp
  from bitmap_inode_loop_marks[OF Cons.prems(1) pre1] obtain a1 r1 where
    a1: "bitmap_inode_loop p ?blk [0..<INODES_PER_BLOCK] (Some a) ?d1 =
           Continue (Some a1, d\<lparr>reads := r1\<rparr>)"
      "length a1 = length a"
      "\<forall>b<length a. a1 ! b \<longleftrightarrow>
        a ! b \<and> \<not> (\<exists>i\<in>set [0..<INODES_PER_BLOCK]. inode_valid ?blk i \<noteq> 0 \<and>
                 b \<in> set (inode_owned (contents d) ?blk i))"
    by auto
  let ?a2 = "a1[x := False]"
  let ?d2 = "d\<lparr>reads := r1\<rparr>"
  have pre2: "\<forall>y\<in>set bs. y < Disk.blocks ?d2 \<and> y < length ?a2 \<and>
          (\<forall>i<INODES_PER_BLOCK. inode_valid (contents ?d2 y) i \<noteq> 0 \<longrightarrow>
             (inode_indirect (contents ?d2 y) i \<noteq> 0 \<longrightarrow>
                inode_indirect (contents ?d2 y) i < Disk.blocks ?d2) \<and>
             (\<forall>b\<in>set (inode_owned (contents ?d2) (contents ?d2 y) i). b < length ?a2))"
    using Cons.prems(2) a1(2) by simp
  from Cons.IH[OF Cons.prems(1) pre2] obtain a' r where
    r: "bitmap_block_loop p bs (Some ?a2) ?d2 = Inr (Some a', d\<lparr>reads := r\<rparr>)"
      "length a' = length ?a2"
      "\<forall>b<length ?a2. a' ! b \<longleftrightarrow>
        ?a2 ! b \<and> b \<notin> set bs \<and>
        \<not> (\<exists>y\<in>set bs. \<exists>i<INODES_PER_BLOCK. inode_valid (contents d y) i \<noteq> 0 \<and>
              b \<in> set (inode_owned (contents d) (contents d y) i))"
    by auto
  have e: "bitmap_block_loop p (x # bs) (Some a) d = Inr (Some a', d\<lparr>reads := r\<rparr>)"
    using a1(1) a1(2) x r(1)
    by (simp add: disk_read_ok[OF Cons.prems(1) x(1)] DISK_FAILURE_def BLOCK_SIZE_def
        set_free_def del: bitmap_inode_loop.simps)
  have "\<forall>b<length a. a' ! b \<longleftrightarrow>
        a ! b \<and> b \<notin> set (x # bs) \<and>
        \<not> (\<exists>y\<in>set (x # bs). \<exists>i<INODES_PER_BLOCK. inode_valid (contents d y) i \<noteq> 0 \<and>
              b \<in> set (inode_owned (contents d) (contents d y) i))"
  proof (intro allI impI)
    fix b assume b: "b < length a"
    have "?a2 ! b \<longleftrightarrow> a1 ! b \<and> b \<noteq> x" using b a1(2) by (cases "b = x") simp_all
    moreover have "a1 ! b \<longleftrightarrow> a ! b \<and>
        \<not> (\<exists>i<INODES_PER_BLOCK. inode_valid ?blk i \<noteq> 0 \<and>
              b \<in> set (inode_owned (contents d) ?blk i))"
      using a1(3) b by (simp add: Bex_def)
    moreover have "a' ! b \<longleftrightarrow> ?a2 ! b \<and> b \<notin> set bs \<and>
        \<not> (\<exists>y\<in>set bs. \<exists>i<INODES_PER_BLOCK. inode_valid (contents d y) i \<noteq> 0 \<and>
              b \<in> set (inode_owned (contents d) (contents d y) i))"
      using r(3) a1(2) b by simp
    ultimately show "a' ! b \<longleftrightarrow>
        a ! b \<and> b \<notin> set (x # bs) \<and>
        \<not> (\<exists>y\<in>set (x # bs). \<exists>i<INODES_PER_BLOCK. inode_valid (contents d y) i \<noteq> 0 \<and>
              b \<in> set (inode_owned (contents d) (contents d y) i))"
      by (simp only: list.set bex_simps insert_iff de_Morgan_disj bex_Un) blast
  qed
  then show ?case using e r(2) a1(2) by auto
qed

lemma slot_index:
  assumes "1 \<le> x" "x \<le> n" "i < INODES_PER_BLOCK"
  shows "((x - 1) * INODES_PER_BLOCK + i) div INODES_PER_BLOCK + 1 = x"
    and "((x - 1) * INODES_PER_BLOCK + i) mod INODES_PER_BLOCK = i"
    and "(x - 1) * INODES_PER_BLOCK + i < n * INODES_PER_BLOCK"
proof -
  show "((x - 1) * INODES_PER_BLOCK + i) div INODES_PER_BLOCK + 1 = x"
    using assms by simp
  show "((x - 1) * INODES_PER_BLOCK + i) mod INODES_PER_BLOCK = i"
    using assms by simp
  have "(x - 1) * INODES_PER_BLOCK + i < (x - 1) * INODES_PER_BLOCK + INODES_PER_BLOCK"
    using assms(3) by simp
  also have "\<dots> = (x - 1 + 1) * INODES_PER_BLOCK" by (simp only: add_mult_distrib mult_1)
  also have "\<dots> = x * INODES_PER_BLOCK" using assms(1) by simp
  also have "\<dots> \<le> n * INODES_PER_BLOCK" using assms(2) by (rule mult_le_mono1)
  finally show "(x - 1) * INODES_PER_BLOCK + i < n * INODES_PER_BLOCK" .
qed

lemma slot_block_index:
  "(\<exists>x\<in>set [1..<n + 1]. \<exists>i<INODES_PER_BLOCK. P x i) \<longleftrightarrow>
   (\<exists>k<n * INODES_PER_BLOCK. P (k div INODES_PER_BLOCK + 1) (k mod INODES_PER_BLOCK))"
proof
  assume "\<exists>x\<in>set [1..<n + 1]. \<exists>i<INODES_PER_BLOCK. P x i"
  then obtain x i where x: "1 \<le> x" "x \<le> n" and i: "i < INODES_PER_BLOCK" and P: "P x i"
    by auto
  let ?k = "(x - 1) * INODES_PER_BLOCK + i"
  have "P (?k div INODES_PER_BLOCK + 1) (?k mod INODES_PER_BLOCK)"
    using P by (simp only: slot_index(1,2)[OF x i])
  then show "\<exists>k<n * INODES_PER_BLOCK. P (k div INODES_PER_BLOCK + 1) (k mod INODES_PER_BLOCK)"
    using slot_index(3)[OF x i] by blast
next
  assume "\<exists>k<n * INODES_PER_BLOCK. P (k div INODES_PER_BLOCK + 1) (k mod INODES_PER_BLOCK)"
  then obtain k where k: "k < n * INODES_PER_BLOCK"
    and P: "P (k div INODES_PER_BLOCK + 1) (k mod INODES_PER_BLOCK)" by auto
  have "k div INODES_PER_BLOCK < n"
    using k INODES_PER_BLOCK_pos by (simp add: less_mult_imp_div_less)
  then have "k div INODES_PER_BLOCK + 1 \<in> set [1..<n + 1]" by auto
  moreover have "k mod INODES_PER_BLOCK < INODES_PER_BLOCK" using INODES_PER_BLOCK_pos by simp
  ultimately show "\<exists>x\<in>set [1..<n + 1]. \<exists>i<INODES_PER_BLOCK. P x i" using P by blast
qed

lemma fs_initialize_free_block_bitmap_exact:
  assumes p: "disk fs \<noteq> 0"
    and table: "inode_blocks (meta_data fs) < Disk.blocks d"
      "inode_blocks (meta_data fs) < SuperBlock.blocks (meta_data fs)"
    and files: "\<forall>k<inode_blocks (meta_data fs) * INODES_PER_BLOCK. slot_valid d k \<longrightarrow>
        (let blk = contents d (k div INODES_PER_BLOCK + 1); i = k mod INODES_PER_BLOCK
         in inode_indirect blk i \<noteq> 0 \<longrightarrow> inode_indirect blk i < Disk.blocks d) \<and>
        (\<forall>b\<in>set (owned_blocks d k). b < SuperBlock.blocks (meta_data fs))"
  shows "\<exists>a r. fs_initialize_free_block_bitmap fs d =
        Inr (fs\<lparr>free_blocks := Some a\<rparr>, d\<lparr>reads := r\<rparr>) \<and>
      length a = SuperBlock.blocks (meta_data fs) \<and>
      (\<forall>b<SuperBlock.blocks (meta_data fs). \<not> a ! b \<longleftrightarrow>
         b \<le> inode_blocks (meta_data fs) \<or>
         (\<exists>k<inode_blocks (meta_data fs) * INODES_PER_BLOCK.
            slot_valid d k \<and> b \<in> set (owned_blocks d k)))"
proof -
  let ?n = "SuperBlock.blocks (meta_data fs)"
  let ?ib = "inode_blocks (meta_data fs)"
  let ?a0 = "(replicate ?n True)[0 := False]"
  have n: "0 < ?n" using table(2) by simp
  have pre: "\<forall>x\<in>set [1..<?ib + 1]. x < Disk.blocks d \<and> x < length ?a0 \<and>
          (\<forall>i<INODES_PER_BLOCK. inode_valid (contents d x) i \<noteq> 0 \<longrightarrow>
             (inode_indirect (contents d x) i \<noteq> 0 \<longrightarrow>
                inode_indirect (contents d x) i < Disk.blocks d) \<and>
             (\<forall>b\<in>set (inode_owned (contents d) (contents d x) i). b < length ?a0))"
  proof (intro ballI)
    fix x assume "x \<in> set [1..<?ib + 1]"
    then have x: "1 \<le> x" "x \<le> ?ib" by auto
    have "\<forall>i<INODES_PER_BLOCK. inode_valid (contents d x) i \<noteq> 0 \<longrightarrow>
             (inode_indirect (contents d x) i \<noteq> 0 \<longrightarrow>
                inode_indirect (contents d x) i < Disk.blocks d) \<and>
             (\<forall>b\<in>set (inode_owned (contents d) (contents d x) i). b < length ?a0)"
    proof (intro allI impI)
      fix i assume i: "i < INODES_PER_BLOCK" and v: "inode_valid (contents d x) i \<noteq> 0"
      let ?k = "(x - 1) * INODES_PER_BLOCK + i"
      note kx = slot_index(1,2)[OF x i]
      note k = slot_index(3)[OF x i]
      have sv: "slot_valid d ?k" unfolding slot_valid_def kx using v .
      from files[rule_format, OF k sv]
      show "(inode_indirect (contents d x) i \<noteq> 0 \<longrightarrow>
                inode_indirect (contents d x) i < Disk.blocks d) \<and>
             (\<forall>b\<in>set (inode_owned (contents d) (contents d x) i). b < length ?a0)"
        by (simp only: owned_blocks_inode_owned kx Let_def length_list_update length_replicate)
    qed
    then show "x < Disk.blocks d \<and> x < length ?a0 \<and>
          (\<forall>i<INODES_PER_BLOCK. inode_valid (contents d x) i \<noteq> 0 \<longrightarrow>
             (inode_indirect (contents d x) i \<noteq> 0 \<longrightarrow>
                inode_indirect (contents d x) i < Disk.blocks d) \<and>
             (\<forall>b\<in>set (inode_owned (contents d) (contents d x) i). b < length ?a0))"
      using x table by simp
  qed
  from bitmap_block_loop_marks[OF p pre] obtain a r where
    r: "bitmap_block_loop (disk fs) [1..<?ib + 1] (Some ?a0) d = Inr (Some a, d\<lparr>reads := r\<rparr>)"
      "length a = length ?a0"
      "\<forall>b<length ?a0. a ! b \<longleftrightarrow>
        ?a0 ! b \<and> b \<notin> set [1..<?ib + 1] \<and>
        \<not> (\<exists>x\<in>set [1..<?ib + 1]. \<exists>i<INODES_PER_BLOCK. inode_valid (contents d x) i \<noteq> 0 \<and>
              b \<in> set (inode_owned (contents d) (contents d x) i))"
    by blast
  have e: "fs_initialize_free_block_bitmap fs d =
        Inr (fs\<lparr>free_blocks := Some a\<rparr>, d\<lparr>reads := r\<rparr>)"
    using n r(1) by (simp add: fs_initialize_free_block_bitmap_def set_free_def
        del: bitmap_block_loop.simps)
  have len: "length a = ?n" using r(2) by simp
  have "\<forall>b<?n. \<not> a ! b \<longleftrightarrow>
         b \<le> ?ib \<or> (\<exists>k<?ib * INODES_PER_BLOCK. slot_valid d k \<and> b \<in> set (owned_blocks d k))"
  proof (intro allI impI)
    fix b assume b: "b < ?n"
    have a0: "?a0 ! b \<longleftrightarrow> b \<noteq> 0" using b by (cases "b = 0") simp_all
    have s: "(\<exists>x\<in>set [1..<?ib + 1]. \<exists>i<INODES_PER_BLOCK. inode_valid (contents d x) i \<noteq> 0 \<and>
              b \<in> set (inode_owned (contents d) (contents d x) i)) \<longleftrightarrow>
          (\<exists>k<?ib * INODES_PER_BLOCK. slot_valid d k \<and> b \<in> set (owned_blocks d k))"
      by (simp only: slot_block_index[where P = "\<lambda>x i. inode_valid (contents d x) i \<noteq> 0 \<and>
              b \<in> set (inode_owned (contents d) (contents d x) i)"] slot_valid_def
            owned_blocks_inode_owned)
    have "b < length ?a0" using b by simp
    from r(3)[rule_format, OF this]
    have "a ! b \<longleftrightarrow> ?a0 ! b \<and> b \<notin> set [1..<?ib + 1] \<and>
        \<not> (\<exists>k<?ib * INODES_PER_BLOCK. slot_valid d k \<and> b \<in> set (owned_blocks d k))"
      unfolding s .
    then show "\<not> a ! b \<longleftrightarrow>
         b \<le> ?ib \<or> (\<exists>k<?ib * INODES_PER_BLOCK. slot_valid d k \<and> b \<in> set (owned_blocks d k))"
      using a0 by auto
  qed
  then show ?thesis using e len by blast
qed

lemma inode_valid_file_inode_block: "0 < i \<Longrightarrow> inode_valid file_inode_block i = 0"
  by (simp add: file_inode_block_def block_field_defs get32_simps)

lemma slot_valid_file_disk_iff:
  assumes "k < 2 * INODES_PER_BLOCK"
  shows "slot_valid file_disk k \<longleftrightarrow> k = 0"
proof (cases "k < INODES_PER_BLOCK")
  case True
  then have "k div INODES_PER_BLOCK + 1 = Suc 0" "k mod INODES_PER_BLOCK = k" by simp_all
  then show ?thesis
    using inode_valid_file_inode_block[of k]
    by (cases "k = 0") (simp_all add: slot_valid_def file_disk_simps file_inode_fields)
next
  case False
  then have "k div INODES_PER_BLOCK = 1" using assms by (simp add: INODES_PER_BLOCK_def)
  then have b: "k div INODES_PER_BLOCK + 1 = Suc (Suc 0)" by simp
  have c: "contents file_disk (Suc (Suc 0)) = zero_block"
    by (simp add: file_disk_def sfs_disk_simps)
  have "\<not> slot_valid file_disk k"
    unfolding slot_valid_def b c by (simp add: inode_valid_frame)
  moreover have "k \<noteq> 0" using False INODES_PER_BLOCK_pos by auto
  ultimately show ?thesis by simp
qed

lemma fs_initialize_free_block_bitmap_file_disk:
  "\<exists>a r. fs_initialize_free_block_bitmap file_fs file_disk =
        Inr (file_fs\<lparr>free_blocks := Some a\<rparr>, file_disk\<lparr>reads := r\<rparr>) \<and>
      length a = 20 \<and> (\<forall>b<20. \<not> a ! b \<longleftrightarrow> b \<le> 9)"
proof -
  have m: "SuperBlock.blocks (meta_data file_fs) = 20" "inode_blocks (meta_data file_fs) = 2"
    by (simp_all add: file_fs_def mounted_fs_simps)
  have p: "disk file_fs \<noteq> 0" by (simp add: file_disk_simps)
  have t: "inode_blocks (meta_data file_fs) < Disk.blocks file_disk"
    "inode_blocks (meta_data file_fs) < SuperBlock.blocks (meta_data file_fs)"
    by (simp_all add: m file_disk_simps)
  have z: "0 div INODES_PER_BLOCK + 1 = Suc 0" "0 mod INODES_PER_BLOCK = 0" by simp_all
  have f: "\<forall>k<inode_blocks (meta_data file_fs) * INODES_PER_BLOCK. slot_valid file_disk k \<longrightarrow>
        (let blk = contents file_disk (k div INODES_PER_BLOCK + 1); i = k mod INODES_PER_BLOCK
         in inode_indirect blk i \<noteq> 0 \<longrightarrow> inode_indirect blk i < Disk.blocks file_disk) \<and>
        (\<forall>b\<in>set (owned_blocks file_disk k). b < SuperBlock.blocks (meta_data file_fs))"
  proof (intro allI impI)
    fix k assume "k < inode_blocks (meta_data file_fs) * INODES_PER_BLOCK" "slot_valid file_disk k"
    then have k: "k = 0" using slot_valid_file_disk_iff[of k] by (simp add: m)
    show "(let blk = contents file_disk (k div INODES_PER_BLOCK + 1); i = k mod INODES_PER_BLOCK
         in inode_indirect blk i \<noteq> 0 \<longrightarrow> inode_indirect blk i < Disk.blocks file_disk) \<and>
        (\<forall>b\<in>set (owned_blocks file_disk k). b < SuperBlock.blocks (meta_data file_fs))"
      unfolding k Let_def z m owned_blocks_file_disk
      by (simp add: file_disk_simps file_inode_fields)
  qed
  from fs_initialize_free_block_bitmap_exact[OF p t f] obtain a r where
    r: "fs_initialize_free_block_bitmap file_fs file_disk =
        Inr (file_fs\<lparr>free_blocks := Some a\<rparr>, file_disk\<lparr>reads := r\<rparr>)"
      "length a = 20"
      "\<forall>b<20. \<not> a ! b \<longleftrightarrow> b \<le> 2 \<or>
         (\<exists>k<2 * INODES_PER_BLOCK. slot_valid file_disk k \<and> b \<in> set (owned_blocks file_disk k))"
    unfolding m by blast
  have "\<forall>b<20. \<not> a ! b \<longleftrightarrow> b \<le> 9"
  proof (intro allI impI)
    fix b :: nat assume b: "b < 20"
    have "(\<exists>k<2 * INODES_PER_BLOCK. slot_valid file_disk k \<and> b \<in> set (owned_blocks file_disk k))
        \<longleftrightarrow> b \<in> set (owned_blocks file_disk 0)"
    proof
      assume "\<exists>k<2 * INODES_PER_BLOCK. slot_valid file_disk k \<and> b \<in> set (owned_blocks file_disk k)"
      then obtain k where "k < 2 * INODES_PER_BLOCK" "slot_valid file_disk k"
        "b \<in> set (owned_blocks file_disk k)" by blast
      then show "b \<in> set (owned_blocks file_disk 0)"
        using slot_valid_file_disk_iff[of k] by simp
    next
      assume "b \<in> set (owned_blocks file_disk 0)"
      moreover have "0 < 2 * INODES_PER_BLOCK" using INODES_PER_BLOCK_pos by simp
      ultimately show "\<exists>k<2 * INODES_PER_BLOCK. slot_valid file_disk k \<and> b \<in> set (owned_blocks file_disk k)"
        using slot_valid_file_disk(1) by blast
    qed
    then have "\<not> a ! b \<longleftrightarrow> b \<le> 2 \<or> b \<in> set [3, 4, 5, 6, 7, 8, 9]"
      using r(3) b by (simp only: owned_blocks_file_disk)
    also have "\<dots> \<longleftrightarrow> b \<le> 9" by (simp only: list.set insert_iff empty_iff) arith
    finally show "\<not> a ! b \<longleftrightarrow> b \<le> 9" .
  qed
  then show ?thesis using r(1,2) by blast
qed


subsection \<open>fs_read: failed device reads and zero pointers\<close>

text \<open>
  A device read that fails at any block of the walk makes \<^verbatim>\<open>fs_read\<close> itself return -1,
  also when blocks before it were read and copied: \<open>m\<close> is the number of blocks the walk
  has passed when it meets the read that fails (of the block a direct pointer names, of
  the indirect block, or of the block an entry of the indirect block names). The count
  \<^verbatim>\<open>fs_read\<close> returns is never partial: it is -1 or the adjusted length. The last lemma
  is a read of two blocks whose second block is not on the device.
\<close>

lemma read_fetch_Fault:
  "read_fetch p blk i k d = Fault e \<Longrightarrow> POINTERS_PER_INODE + POINTERS_PER_BLOCK \<le> k"
  by (auto simp add: read_fetch_def Let_def split: if_splits prod.splits)

lemma read_fetch_Return:
  "read_fetch p blk i k d = Return (x, d') \<Longrightarrow> x = - 1"
  by (auto simp add: read_fetch_def Let_def split: if_splits prod.splits)

lemma read_fetch_Continue:
  "read_fetch p blk i k d = Continue (b, d') \<Longrightarrow> \<exists>r. d' = d\<lparr>reads := r\<rparr>"
  by (auto simp add: read_fetch_def disk_read_def Let_def split: if_splits prod.splits)

lemma read_loop_failed_fetch:
  assumes "\<And>r. \<exists>d'. read_fetch p blk i (k + m) (d\<lparr>reads := r\<rparr>) = Return (- 1, d')"
    and "nread < len" "len < 2 ^ 64"
    and "m = 0 \<or> nread + ncopy + (m - 1) * BLOCK_SIZE < len"
    and "doff + ncopy \<le> BLOCK_SIZE"
    and "k + m < POINTERS_PER_INODE + POINTERS_PER_BLOCK"
  shows "\<exists>data' d'. read_loop p blk i len (k, nread, doff, ncopy, data, d) = Inr (- 1, data', d')"
  using assms
proof (induction m arbitrary: k nread doff ncopy data d)
  case 0
  from "0.prems"(1)[of "reads d"] obtain d' where
    "read_fetch p blk i k d = Return (- 1, d')" by auto
  then show ?case
    using "0.prems"(2) by (simp add: read_loop_step read_step_fail)
next
  case (Suc m)
  show ?case
  proof (cases "read_fetch p blk i k d")
    case (Fault e)
    from read_fetch_Fault[OF Fault] Suc.prems(6) show ?thesis by simp
  next
    case (Return res)
    obtain x d' where res: "res = (x, d')" by (cases res)
    have "x = - 1" using Return res read_fetch_Return by blast
    then show ?thesis
      using Return res Suc.prems(2) by (simp add: read_loop_step read_step_fail)
  next
    case (Continue res)
    obtain b d1 where res: "res = (b, d1)" by (cases res)
    from read_fetch_Continue Continue res obtain r1 where d1: "d1 = d\<lparr>reads := r1\<rparr>" by blast
    let ?nread = "nread + ncopy"
    let ?ncopy = "if sub64 len ?nread > BLOCK_SIZE then BLOCK_SIZE else sub64 len ?nread"
    have reach: "?nread + m * BLOCK_SIZE < len" using Suc.prems(4) by simp
    then have lt: "?nread < len" by simp
    have sub: "sub64 len ?nread = len - ?nread" using lt Suc.prems(3) by (simp add: sub64_le)
    have st: "read_step p blk i len (k, nread, doff, ncopy, data, d) =
        Continue (k + 1, ?nread, 0, ?ncopy, memcpy data nread b doff ncopy, d1)"
      using Continue res Suc.prems(5) by (simp add: read_step_copy)
    have f: "\<And>r. \<exists>d'. read_fetch p blk i (k + 1 + m) (d1\<lparr>reads := r\<rparr>) = Return (- 1, d')"
      using Suc.prems(1) by (simp add: d1)
    have r: "m = 0 \<or> ?nread + ?ncopy + (m - 1) * BLOCK_SIZE < len"
    proof (cases m)
      case 0
      then show ?thesis by simp
    next
      case (Suc m')
      have "BLOCK_SIZE + m' * BLOCK_SIZE < len - ?nread" using reach Suc by simp
      then have "BLOCK_SIZE < len - ?nread" by simp
      then have "?ncopy = BLOCK_SIZE" using sub by simp
      then show ?thesis using reach Suc by simp
    qed
    have inv: "0 + ?ncopy \<le> BLOCK_SIZE" by simp
    have b: "k + 1 + m < POINTERS_PER_INODE + POINTERS_PER_BLOCK" using Suc.prems(6) by simp
    from Suc.IH[OF f lt Suc.prems(3) r inv b]
    obtain data' d' where
      "read_loop p blk i len (k + 1, ?nread, 0, ?ncopy, memcpy data nread b doff ncopy, d1) =
        Inr (- 1, data', d')" by blast
    then show ?thesis
      using Suc.prems(2) by (simp add: read_loop_step st)
  qed
qed

lemma read_fetch_failed_read:
  assumes "(k < POINTERS_PER_INODE \<and> \<not> disk_sanity_check p d (inode_direct blk i k)) \<or>
     (POINTERS_PER_INODE \<le> k \<and> \<not> disk_sanity_check p d (inode_indirect blk i)) \<or>
     (POINTERS_PER_INODE \<le> k \<and> k - POINTERS_PER_INODE < POINTERS_PER_BLOCK \<and>
      disk_sanity_check p d (inode_indirect blk i) \<and>
      \<not> disk_sanity_check p d (pointers (contents d (inode_indirect blk i)) (k - POINTERS_PER_INODE)))"
  shows "\<exists>d'. read_fetch p blk i k (d\<lparr>reads := r\<rparr>) = Return (- 1, d')"
proof -
  consider (direct) "k < POINTERS_PER_INODE" "\<not> disk_sanity_check p d (inode_direct blk i k)"
    | (indirect) "POINTERS_PER_INODE \<le> k" "\<not> disk_sanity_check p d (inode_indirect blk i)"
    | (entry) "POINTERS_PER_INODE \<le> k" "k - POINTERS_PER_INODE < POINTERS_PER_BLOCK"
        "disk_sanity_check p d (inode_indirect blk i)"
        "\<not> disk_sanity_check p d (pointers (contents d (inode_indirect blk i)) (k - POINTERS_PER_INODE))"
    using assms by blast
  then show ?thesis
  proof cases
    case direct
    then show ?thesis by (simp add: read_fetch_direct_fail)
  next
    case indirect
    then show ?thesis by (simp add: read_fetch_indirect_fail)
  next
    case entry
    then show ?thesis by (simp add: read_fetch_pointer_fail)
  qed
qed

lemma fs_read_failed_device_read:
  assumes "disk fs \<noteq> 0" "n div INODES_PER_BLOCK + 1 < Disk.blocks d"
    and L: "L = (if stored_size d n < add64 len offset then sub64 (stored_size d n) offset else len)"
    and "len < 2 ^ 64" "0 < L"
    and fit: "L < BLOCK_SIZE \<longrightarrow> offset mod BLOCK_SIZE + L \<le> BLOCK_SIZE"
    and reach: "m = 0 \<or>
      (BLOCK_SIZE \<le> L \<and> BLOCK_SIZE - offset mod BLOCK_SIZE + (m - 1) * BLOCK_SIZE < L)"
    and "offset div BLOCK_SIZE + m < POINTERS_PER_INODE + POINTERS_PER_BLOCK"
    and fail: "\<And>r. \<exists>d'. read_fetch (disk fs) (contents d (n div INODES_PER_BLOCK + 1))
        (n mod INODES_PER_BLOCK) (offset div BLOCK_SIZE + m) (d\<lparr>reads := r\<rparr>) = Return (- 1, d')"
  shows "\<exists>data' d'. fs_read fs d n data len offset = Inr (- 1, data', d')"
proof -
  let ?doff = "offset mod BLOCK_SIZE"
  let ?ncopy = "if L < BLOCK_SIZE then L else BLOCK_SIZE - ?doff"
  let ?d1 = "d\<lparr>reads := reads d + 1\<rparr>"
  have L64: "L < 2 ^ 64" unfolding L using assms(4) sub64_less by simp
  have f: "\<And>r. \<exists>d'. read_fetch (disk fs) (contents d (n div INODES_PER_BLOCK + 1))
        (n mod INODES_PER_BLOCK) (offset div BLOCK_SIZE + m) (?d1\<lparr>reads := r\<rparr>) = Return (- 1, d')"
    using fail by simp
  have r: "m = 0 \<or> 0 + ?ncopy + (m - 1) * BLOCK_SIZE < L" using reach by auto
  have inv: "?doff + ?ncopy \<le> BLOCK_SIZE" using fit by (simp add: BLOCK_SIZE_def)
  from read_loop_failed_fetch[OF f assms(5) L64 r inv assms(8)]
  obtain data' d' where
    "read_loop (disk fs) (contents d (n div INODES_PER_BLOCK + 1)) (n mod INODES_PER_BLOCK) L
       (offset div BLOCK_SIZE, 0, ?doff, ?ncopy, data, ?d1) = Inr (- 1, data', d')" by blast
  then have "fs_read fs d n data len offset = Inr (- 1, data', d')"
    unfolding fs_read_unfold[OF assms(1,2)] L .
  then show ?thesis by blast
qed

lemma fs_read_no_partial_count:
  assumes "len < 2 ^ 64" "fs_read fs d n data len offset = Inr (r, data', d')"
  shows "r = - 1 \<or> r = int (if stored_size d n < add64 len offset
                            then sub64 (stored_size d n) offset else len)"
proof -
  let ?L = "if stored_size d n < add64 len offset then sub64 (stored_size d n) offset else len"
  have L: "?L < 2 ^ 64" using assms(1) sub64_less[of "stored_size d n" offset] by simp
  show ?thesis
  proof (cases "disk_sanity_check (disk fs) d (n div INODES_PER_BLOCK + 1)")
    case False
    then show ?thesis using assms(2) by (simp add: fs_read_def Let_def disk_read_fail)
  next
    case True
    then have "disk fs \<noteq> 0" "n div INODES_PER_BLOCK + 1 < Disk.blocks d"
      by (auto simp add: disk_sanity_check_def split: if_splits)
    from fs_read_unfold[OF this] assms(2)
    have "read_loop (disk fs) (contents d (n div INODES_PER_BLOCK + 1)) (n mod INODES_PER_BLOCK) ?L
      (offset div BLOCK_SIZE, 0, offset mod BLOCK_SIZE,
       (if ?L < BLOCK_SIZE then ?L else BLOCK_SIZE - offset mod BLOCK_SIZE),
       data, d\<lparr>reads := reads d + 1\<rparr>) = Inr (r, data', d')" by simp
    moreover have "0 + (if ?L < BLOCK_SIZE then ?L else BLOCK_SIZE - offset mod BLOCK_SIZE) \<le> ?L"
      by simp arith
    ultimately show ?thesis using read_loop_count L by blast
  qed
qed

lemma stale_disk_simps:
  "Disk.blocks stale_disk = 20"
  "stored_size stale_disk 0 = 8192"
  "inode_direct (contents stale_disk (Suc 0)) 0 0 = 3"
  "inode_direct (contents stale_disk (Suc 0)) 0 (Suc 0) = 99"
  by (simp_all add: stale_disk_def sfs_disk_def fresh_disk_def stored_size_def
      block_field_defs get32_simps)

lemma fs_read_stale_disk:
  "\<exists>data' d'. fs_read (mounted_fs 1) stale_disk 0 zero_block 8192 0 = Inr (- 1, data', d')"
proof (rule fs_read_failed_device_read[where m = 1 and L = 8192])
  show "disk (mounted_fs 1) \<noteq> 0" by (simp add: mounted_fs_simps)
  show "0 div INODES_PER_BLOCK + 1 < Disk.blocks stale_disk" by (simp add: stale_disk_simps)
  show "(8192::nat) = (if stored_size stale_disk 0 < add64 8192 0
      then sub64 (stored_size stale_disk 0) 0 else 8192)"
    by (simp add: stale_disk_simps add64_def)
  show "(8192::nat) < 2 ^ 64" by simp
  show "(0::nat) < 8192" by simp
  show "(8192::nat) < BLOCK_SIZE \<longrightarrow> 0 mod BLOCK_SIZE + 8192 \<le> BLOCK_SIZE"
    by (simp add: BLOCK_SIZE_def)
  show "(1::nat) = 0 \<or> (BLOCK_SIZE \<le> 8192 \<and> BLOCK_SIZE - 0 mod BLOCK_SIZE + (1 - 1) * BLOCK_SIZE < 8192)"
    by (simp add: BLOCK_SIZE_def)
  show "0 div BLOCK_SIZE + 1 < POINTERS_PER_INODE + POINTERS_PER_BLOCK"
    by (simp add: POINTERS_PER_INODE_def POINTERS_PER_BLOCK_def)
  fix r
  have "\<exists>d'. read_fetch (disk (mounted_fs 1)) (contents stale_disk (Suc 0)) 0 (Suc 0)
      (stale_disk\<lparr>reads := r\<rparr>) = Return (- 1, d')"
    by (rule read_fetch_failed_read)
       (simp add: POINTERS_PER_INODE_def stale_disk_simps disk_sanity_check_def)
  then show "\<exists>d'. read_fetch (disk (mounted_fs 1)) (contents stale_disk (0 div INODES_PER_BLOCK + 1))
      (0 mod INODES_PER_BLOCK) (0 div BLOCK_SIZE + 1) (stale_disk\<lparr>reads := r\<rparr>) = Return (- 1, d')"
    by simp
qed

text \<open>
  What \<^verbatim>\<open>fs_read\<close> does at a zero pointer, on the state that \<^verbatim>\<open>fs_write\<close> at offset 4096
  of a new inode leaves.
\<close>

lemma write_step_hole:
  "write_step 1 0 payload 4096 4096
     (set_inode_valid zero_block 0 1, 1, 0, 0, 4096, mounted_fs 1, created_disk\<lparr>reads := 5\<rparr>) =
   Continue (set_inode_size (set_inode_direct (set_inode_valid zero_block 0 1) 0 1 3) 0 8192,
     2, 4096, 0, 0, hole_fs, hole_disk)"
proof -
  let ?blk = "set_inode_valid zero_block 0 1"
  let ?d1 = "created_disk\<lparr>reads := 5\<rparr>"
  let ?d2 = "?d1\<lparr>reads := reads ?d1 + 1, writes := writes ?d1 + 1,
         contents := (contents ?d1)(3 := memcpy (contents ?d1 3) 0 payload 0 4096)\<rparr>"
  have v: "inode_direct ?blk 0 1 = 0" by (simp add: inode_field_simps)
  have wd: "write_direct (mounted_fs 1) ?d1 ?blk 0 1 0 4096 payload 0 =
      Continue (set_inode_direct ?blk 0 1 3, hole_fs, ?d2)"
    by (subst write_direct_alloc[OF v find_free_block_mounted])
       (simp_all add: disk_sanity_check_def mounted_fs_simps created_disk_simps BLOCK_SIZE_def
          hole_fs_def)
  have wb: "write_block (mounted_fs 1) ?d1 ?blk 0 1 0 4096 payload 0 =
      Continue (set_inode_direct ?blk 0 1 3, hole_fs, ?d2)"
    by (subst write_block_direct, simp add: POINTERS_PER_INODE_def, rule wd)
  show ?thesis
    by (subst write_step_continue[OF wb])
       (simp add: add64_def sub64_def inode_field_simps POINTERS_PER_INODE_def mounted_fs_simps
          disk_write_def disk_sanity_check_def created_disk_simps hole_disk_def
          created_disk_def sfs_disk_simps fun_upd_twist numeral_2_eq_2[symmetric])
qed

lemma fs_write_hole:
  "fs_write (mounted_fs 1) (created_disk\<lparr>reads := 4\<rparr>) 0 payload 4096 4096 =
     Inr (4096, hole_fs, hole_disk)"
proof -
  have u: "fs_write (mounted_fs 1) (created_disk\<lparr>reads := 4\<rparr>) 0 payload 4096 4096 =
      write_loop 1 0 payload 4096 4096
        (set_inode_valid zero_block 0 1, 1, 0, 0, 4096, mounted_fs 1, created_disk\<lparr>reads := 5\<rparr>)"
    by (subst fs_write_unfold)
       (simp_all add: created_disk_simps mounted_fs_simps inode_field_simps BLOCK_SIZE_def)
  show ?thesis
    unfolding u
    by (subst write_loop_step, simp, subst write_step_hole, simp add: write_loop_done)
qed

lemma hole_disk_simps:
  "Disk.blocks hole_disk = 20" "reads hole_disk = 6" "writes hole_disk = 3"
  "contents hole_disk (Suc 0) =
     set_inode_size (set_inode_direct (set_inode_valid zero_block 0 1) 0 1 3) 0 8192"
  "contents hole_disk 0 = super_image (format_block (fresh_disk 20))"
  "disk hole_fs = 1"
  by (simp_all add: hole_disk_def created_disk_def sfs_disk_def fresh_disk_def hole_fs_def
      mounted_fs_def)

lemma hole_inode_fields:
  "inode_valid (contents hole_disk (Suc 0)) 0 = 1"
  "inode_size (contents hole_disk (Suc 0)) 0 = 8192"
  "inode_direct (contents hole_disk (Suc 0)) 0 0 = 0"
  "inode_direct (contents hole_disk (Suc 0)) 0 (Suc 0) = 3"
  by (simp_all add: hole_disk_simps block_field_defs get32_simps)

lemma fs_read_hole:
  "fs_read hole_fs hole_disk 0 zero_block 100 0 =
     Inr (100, memcpy zero_block 0 (contents hole_disk 0) 0 100, hole_disk\<lparr>reads := 8\<rparr>)"
proof -
  let ?blk = "contents hole_disk (Suc 0)"
  let ?d1 = "hole_disk\<lparr>reads := reads hole_disk + 1\<rparr>"
  have u: "fs_read hole_fs hole_disk 0 zero_block 100 0 =
      read_loop 1 ?blk 0 100 (0, 0, 0, 100, zero_block, ?d1)"
    by (subst fs_read_unfold)
       (simp_all add: hole_disk_simps(1,2,3,6) stored_size_def hole_inode_fields add64_def
          BLOCK_SIZE_def)
  have f: "read_fetch 1 ?blk 0 0 ?d1 =
      Continue (contents ?d1 (inode_direct ?blk 0 0), ?d1\<lparr>reads := reads ?d1 + 1\<rparr>)"
    by (rule read_fetch_direct_ok)
       (simp_all add: POINTERS_PER_INODE_def hole_inode_fields hole_disk_simps(1,2,3,6)
          disk_sanity_check_def)
  have f': "read_fetch 1 ?blk 0 0 ?d1 = Continue (contents hole_disk 0, hole_disk\<lparr>reads := 8\<rparr>)"
    unfolding f by (simp add: hole_inode_fields hole_disk_simps(1,2,3,6))
  have st: "read_step 1 ?blk 0 100 (0, 0, 0, 100, zero_block, ?d1) =
      Continue (0 + 1, 0 + 100, 0,
        (if sub64 100 (0 + 100) > BLOCK_SIZE then BLOCK_SIZE else sub64 100 (0 + 100)),
        memcpy zero_block 0 (contents hole_disk 0) 0 100, hole_disk\<lparr>reads := 8\<rparr>)"
    by (rule read_step_copy[OF f']) (simp add: BLOCK_SIZE_def)
  show ?thesis
    unfolding u
    by (subst read_loop_step, simp, subst st, simp add: read_loop_done)
qed

lemma hole_first_byte: "memcpy zero_block 0 (contents hole_disk 0) 0 100 0 = 16"
  by (simp add: memcpy_def hole_disk_simps super_image_def put32_def format_block_20
      MAGIC_NUMBER_def)

text \<open>
  C5 fails for a zero pointer. After \<^verbatim>\<open>fs_mount\<close>, \<^verbatim>\<open>fs_create\<close> and \<^verbatim>\<open>fs_write\<close> of one
  block at offset 4096, inode 0 is valid and its first direct pointer is 0. A read of the
  first 100 bytes does not return -1: \<^verbatim>\<open>fs_read\<close> passes the pointer to \<^verbatim>\<open>disk_read\<close>
  unchecked, reads block 0 and returns 100, and the caller's buffer holds the bytes of
  the superblock (its first byte is 16, the low byte of the magic number).
\<close>
theorem fs_read_hole_returns_superblock:
  "fs_mount unmounted_fs 1 (sfs_disk 20) = Inr (True, mounted_fs 1, (sfs_disk 20)\<lparr>reads := 3\<rparr>) \<and>
   fs_create (mounted_fs 1) ((sfs_disk 20)\<lparr>reads := 3\<rparr>) = Inr (0, created_disk\<lparr>reads := 4\<rparr>) \<and>
   fs_write (mounted_fs 1) (created_disk\<lparr>reads := 4\<rparr>) 0 payload 4096 4096 =
     Inr (4096, hole_fs, hole_disk) \<and>
   inode_valid (contents hole_disk 1) 0 = 1 \<and>
   inode_direct (contents hole_disk 1) 0 0 = 0 \<and>
   contents hole_disk 0 = super_image (format_block (fresh_disk 20)) \<and>
   fs_read hole_fs hole_disk 0 zero_block 100 0 =
     Inr (100, memcpy zero_block 0 (contents hole_disk 0) 0 100, hole_disk\<lparr>reads := 8\<rparr>) \<and>
   memcpy zero_block 0 (contents hole_disk 0) 0 100 0 = 16"
proof -
  have m: "fs_mount unmounted_fs 1 (sfs_disk 20) = Inr (True, mounted_fs 1, (sfs_disk 20)\<lparr>reads := 3\<rparr>)"
    using fs_mount_sfs_disk [of 1 unmounted_fs 0]
    by (simp add: sfs_disk_reads) (simp add: unmounted_fs_def)
  have c: "fs_create (mounted_fs 1) ((sfs_disk 20)\<lparr>reads := 3\<rparr>) = Inr (0, created_disk\<lparr>reads := 4\<rparr>)"
    using fs_create_mounted[of 3] by simp
  have v: "inode_valid (contents hole_disk 1) 0 = 1" "inode_direct (contents hole_disk 1) 0 0 = 0"
    by (simp_all add: hole_inode_fields)
  show ?thesis
    by (intro conjI) (rule m, rule c, rule fs_write_hole, rule v(1), rule v(2),
      rule hole_disk_simps(5), rule fs_read_hole, rule hole_first_byte)
qed

end
